theory Spec2Isabelle
  imports Main "HOL-Library.AList"
begin

section \<open>Data model of \<^verbatim>\<open>router.py\<close>\<close>

text \<open>
  The integration keeps, per router, a dictionary of clients, a dictionary of AiMesh
  nodes, a bounded list of the latest connected devices and the aggregate sensor values.
  Python dictionaries keep insertion order, so a dictionary is an association list with
  distinct keys: \<open>map_of\<close> is \<^verbatim>\<open>d.get(k)\<close>, \<open>AList.update\<close> is \<^verbatim>\<open>d[k] = v\<close> (in place when
  the key exists, appended otherwise) and \<open>AList.delete\<close> is \<^verbatim>\<open>d.pop(k, None)\<close>.

  Timestamps (\<^verbatim>\<open>datetime\<close>) are integers (seconds). Identity dictionaries are immutable
  values.
\<close>

text \<open>A value stored under the key \<^verbatim>\<open>CONNECTED\<close> of a client identity.\<close>

datatype pyval = PyNone | PyDatetime int | PyOther string

text \<open>
  A client identity (\<^verbatim>\<open>dict[str, Any]\<close>). The code reads two keys: \<^verbatim>\<open>MAC\<close> and
  \<^verbatim>\<open>CONNECTED\<close> (the literal \<^verbatim>\<open>"connected"\<close> in \<^verbatim>\<open>connected_device_time\<close>; the constants
  are declared in \<^verbatim>\<open>const.py\<close>). \<open>id_mac = None\<close> is a missing key or the value \<^verbatim>\<open>None\<close>;
  \<open>id_connected = None\<close> is a missing key. All other items are \<open>id_attrs\<close>.
\<close>

record identity =
  id_mac :: "string option"
  id_connected :: "pyval option"
  id_attrs :: "(string \<times> string) list"

text \<open>The exceptions the modelled code can raise.\<close>

datatype exn = IndexError | KeyError

text \<open>What a pass does to the outside world, in order.\<close>

datatype signal = SignalDeviceUpdate | SignalDeviceNew | SignalAimeshUpdate | SignalAimeshNew

record node_identity =
  n_connected :: bool
  n_attrs :: "(string \<times> string) list"

datatype event_args = NoArgs | ClientArgs identity | NodeArgs node_identity

text \<open>
  The keys of \<^verbatim>\<open>_sensor_coordinator\<close>: the constants \<^verbatim>\<open>AIMESH\<close> and \<^verbatim>\<open>DEVICES\<close> of
  \<^verbatim>\<open>const.py\<close>, and any other sensor type.
\<close>

datatype sensor_type = AIMESH | DEVICES | OtherSensor string

datatype effect =
    LogDebug string
  | LogError string
  | LogInfo string
  | Dispatch signal
  | BusFire string event_args
  | Refresh sensor_type

text \<open>
  The option values the modelled code reads, each after its default has been applied
  (\<^verbatim>\<open>self._options.get(KEY, DEFAULT)\<close>); \<open>opt_events\<close> lists the event names whose
  option \<^verbatim>\<open>is True\<close>.
\<close>

record options =
  opt_track_devices :: bool
  opt_latest_connected :: int
  opt_consider_home :: int
  opt_events :: "string list"

datatype mode = ROUTER | ACCESS_POINT | MEDIA_BRIDGE | AIMESH_NODE

text \<open>
  Modelled from the spec: \<^verbatim>\<open>ARClient\<close> (\<^verbatim>\<open>client.py\<close>) and \<^verbatim>\<open>AiMeshNode\<close> (\<^verbatim>\<open>aimesh.py\<close>)
  are not among the source files. A client record holds its connected flag
  (\<^verbatim>\<open>client.state\<close>) and its identity attributes (\<^verbatim>\<open>client.identity\<close>); a mesh node
  record holds its identity, whose \<^verbatim>\<open>CONNECTED\<close> item is its connected flag.
\<close>

record client =
  state :: bool
  identity :: identity

record aimesh_node =
  node_identity :: node_identity

text \<open>
  The list object held in \<^verbatim>\<open>ARSensorHandler._latest_connected_list\<close>: the handler's own
  list (created in \<^verbatim>\<open>__init__\<close>, never mutated) or the router's list object, which
  \<^verbatim>\<open>connected_device\<close> mutates in place.
\<close>

datatype list_ref = OwnList "identity list" | RouterList

record sensor_handler =
  h_clients_number :: nat
  h_clients_list :: "identity list"
  h_latest_connected :: pyval
  h_latest_connected_list :: list_ref
  h_aimesh_number :: nat
  h_aimesh_list :: "node_identity list"

record ardevice =
  opts :: options
  dev_mode :: mode
  aimesh :: "(string \<times> aimesh_node) list"
  clients :: "(string \<times> client) list"
  clients_number :: nat
  clients_list :: "identity list"
  aimesh_number :: nat
  aimesh_list :: "node_identity list"
  latest_connected :: pyval
  latest_connected_list :: "identity list"
  connect_error :: bool
  sensor_handler :: "sensor_handler option"
  sensor_coordinator :: "sensor_type list"
  trace :: "effect list"

section \<open>The latest-connected history\<close>

text \<open>\<^verbatim>\<open>element.get("connected")\<close>\<close>

definition get_connected :: "identity \<Rightarrow> pyval" where
  "get_connected element = (case id_connected element of None \<Rightarrow> PyNone | Some v \<Rightarrow> v)"

text \<open>
  \<^verbatim>\<open>connected_device_time\<close>: the stored datetime, or the current time \<open>now\<close>
  (\<^verbatim>\<open>datetime.now(timezone.utc)\<close>) for anything else.
\<close>

definition connected_device_time :: "int \<Rightarrow> identity \<Rightarrow> int" where
  "connected_device_time now element =
     (case get_connected element of PyDatetime t \<Rightarrow> t | _ \<Rightarrow> now)"

text \<open>
  The loop \<^verbatim>\<open>for device in lst: if device.get(MAC, None) == mac: lst.remove(device)\<close>.
  The list iterator keeps an index \<open>i\<close>; \<^verbatim>\<open>lst.remove(device)\<close> deletes the first
  element equal to \<open>device\<close>, after which the iterator still advances.
\<close>

function remove_known :: "nat \<Rightarrow> string \<Rightarrow> identity list \<Rightarrow> identity list" where
  "remove_known i mac lst =
     (if i < length lst then
        (if id_mac (lst ! i) = Some mac
         then remove_known (Suc i) mac (remove1 (lst ! i) lst)
         else remove_known (Suc i) mac lst)
      else lst)"
  by pat_completeness auto
termination
  by (relation "measure (\<lambda>(i, mac, lst). length lst - i)") (auto simp: length_remove1)

declare remove_known.simps [simp del]

text \<open>
  The loop \<^verbatim>\<open>while len(lst) > limit: lst.pop(0)\<close>; \<^verbatim>\<open>pop\<close> on an empty list raises
  \<^verbatim>\<open>IndexError\<close>.
\<close>

fun evict :: "int \<Rightarrow> identity list \<Rightarrow> exn option \<times> identity list" where
  "evict limit [] = (if int 0 > limit then (Some IndexError, []) else (None, []))"
| "evict limit (x # xs) =
     (if int (length (x # xs)) > limit then evict limit xs else (None, x # xs))"

text \<open>
  \<^verbatim>\<open>ARDevice.connected_device\<close>. The list is mutated in place, so what was done before an
  exception stays done: the result is the exception raised, if any, and the state. The
  sort is stable, as Python's is; one reading \<open>now\<close> of the clock stands for the readings
  that the key function makes for the entries of one sort.
\<close>

definition connected_device :: "int \<Rightarrow> identity \<Rightarrow> ardevice \<Rightarrow> exn option \<times> ardevice" where
  "connected_device now ident s =
     (case id_mac ident of
        None \<Rightarrow> (None, s)
      | Some mac \<Rightarrow>
          if mac = [] then (None, s)
          else
            let removed = remove_known 0 mac (latest_connected_list s);
                sorted_lst = sort_key (connected_device_time now) removed;
                appended = sorted_lst @ [ident]
            in (case evict (opt_latest_connected (opts s)) appended of
                  (Some e, lst) \<Rightarrow> (Some e, s\<lparr>latest_connected_list := lst\<rparr>)
                | (None, []) \<Rightarrow> (Some IndexError, s\<lparr>latest_connected_list := []\<rparr>)
                | (None, x # xs) \<Rightarrow>
                    (None, s\<lparr>latest_connected_list := x # xs,
                              latest_connected := get_connected (last (x # xs))\<rparr>)))"

text \<open>\<^verbatim>\<open>ARDevice.fire_event\<close>: the event goes to the bus only if its option is on.\<close>

definition fire_event :: "string \<Rightarrow> event_args \<Rightarrow> ardevice \<Rightarrow> ardevice" where
  "fire_event event args s =
     (if event \<in> set (opt_events (opts s))
      then s\<lparr>trace := trace s @ [LogDebug ''Firing event'', BusFire event args]\<rparr>
      else s)"


section \<open>What the router receives from its collaborators\<close>

text \<open>
  A snapshot record of the client library (\<^verbatim>\<open>AsusClient\<close>): its connection type, read by
  the Media Bridge filter, and the rest.
\<close>

datatype connection_type = WIRED | OtherConnection string

record api_client =
  ac_connection :: "connection_type option"
  ac_info :: "(string \<times> string) list"

record api_node =
  an_info :: "(string \<times> string) list"

text \<open>
  A fetch (\<^verbatim>\<open>bridge.async_get_clients\<close>, \<^verbatim>\<open>bridge.async_get_aimesh_nodes\<close>) returns a
  dictionary or raises \<^verbatim>\<open>UpdateFailed\<close>.
\<close>

datatype 'a fetched = UpdateFailed string | Snapshot 'a

text \<open>
  The callbacks an \<^verbatim>\<open>update\<close> method is given: \<^verbatim>\<open>event_call\<close> (\<^verbatim>\<open>fire_event\<close>) and
  \<^verbatim>\<open>connected_call\<close> (\<^verbatim>\<open>connected_device\<close>).
\<close>

datatype callback = EventCall string event_args | ConnectedCall identity

text \<open>
  The functions of modules that are not among the source files, taken as parameters:
  \<^verbatim>\<open>format_mac\<close> (Home Assistant), the constructors \<^verbatim>\<open>ARClient(mac)\<close> and
  \<^verbatim>\<open>AiMeshNode(mac)\<close>, and the two \<^verbatim>\<open>update\<close> methods. An \<^verbatim>\<open>update\<close> returns the record
  as it has mutated it and the calls it has made to its callbacks, in order; the second
  argument of \<open>client_update\<close> is the \<^verbatim>\<open>consider_home\<close> argument, \<open>None\<close> when the call
  does not pass it. A node's \<^verbatim>\<open>update\<close> is given \<^verbatim>\<open>event_call\<close> only. An exception that
  a callback raises is taken to leave the \<^verbatim>\<open>update\<close> and the pass at once, the record
  being as the method returns it.
\<close>

record env =
  format_mac :: "string \<Rightarrow> string"
  new_client :: "string \<Rightarrow> client"
  client_update :: "api_client option \<Rightarrow> int option \<Rightarrow> client \<Rightarrow> client \<times> callback list"
  new_node :: "string \<Rightarrow> aimesh_node"
  node_update :: "api_node option \<Rightarrow> aimesh_node \<Rightarrow> aimesh_node \<times> (string \<times> event_args) list"

definition log :: "effect \<Rightarrow> ardevice \<Rightarrow> ardevice" where
  "log e s = s\<lparr>trace := trace s @ [e]\<rparr>"

text \<open>The callbacks of one \<^verbatim>\<open>update\<close> call; an exception of a callback ends the pass.\<close>

fun run_calls :: "int \<Rightarrow> callback list \<Rightarrow> ardevice \<Rightarrow> exn option \<times> ardevice" where
  "run_calls now [] s = (None, s)"
| "run_calls now (EventCall event args # cs) s = run_calls now cs (fire_event event args s)"
| "run_calls now (ConnectedCall ident # cs) s =
     (case connected_device now ident s of
        (Some e, s') \<Rightarrow> (Some e, s')
      | (None, s') \<Rightarrow> run_calls now cs s')"

fun run_events :: "(string \<times> event_args) list \<Rightarrow> ardevice \<Rightarrow> ardevice" where
  "run_events [] s = s"
| "run_events ((event, args) # cs) s = run_events cs (fire_event event args s)"

section \<open>The sensor handler\<close>

definition deref :: "identity list \<Rightarrow> list_ref \<Rightarrow> identity list" where
  "deref router_list r = (case r of OwnList xs \<Rightarrow> xs | RouterList \<Rightarrow> router_list)"

text \<open>\<^verbatim>\<open>ARSensorHandler.__init__\<close>\<close>

definition new_sensor_handler :: sensor_handler where
  "new_sensor_handler =
     \<lparr>h_clients_number = 0, h_clients_list = [], h_latest_connected = PyNone,
      h_latest_connected_list = OwnList [], h_aimesh_number = 0, h_aimesh_list = []\<rparr>"

text \<open>
  \<^verbatim>\<open>ARSensorHandler.update_clients\<close>. \<^verbatim>\<open>==\<close> compares the lists by value; the
  assignment stores the reference it was given. \<open>router_list\<close> is the present content of
  the router's list object.
\<close>

definition update_clients ::
  "identity list \<Rightarrow> nat \<Rightarrow> identity list \<Rightarrow> pyval \<Rightarrow> list_ref \<Rightarrow> sensor_handler
     \<Rightarrow> bool \<times> sensor_handler" where
  "update_clients router_list number lst latest latest_list h =
     (if h_clients_number h = number \<and> h_clients_list h = lst
         \<and> h_latest_connected h = latest
         \<and> deref router_list (h_latest_connected_list h) = deref router_list latest_list
      then (False, h)
      else (True, h\<lparr>h_clients_number := number, h_clients_list := lst,
                    h_latest_connected := latest, h_latest_connected_list := latest_list\<rparr>))"

text \<open>\<^verbatim>\<open>ARSensorHandler.update_aimesh\<close>\<close>

definition update_aimesh ::
  "nat \<Rightarrow> node_identity list \<Rightarrow> sensor_handler \<Rightarrow> bool \<times> sensor_handler" where
  "update_aimesh number lst h =
     (if h_aimesh_number h = number \<and> h_aimesh_list h = lst then (False, h)
      else (True, h\<lparr>h_aimesh_number := number, h_aimesh_list := lst\<rparr>))"

text \<open>\<^verbatim>\<open>ARDevice._update_unpolled_sensors\<close>\<close>

definition unpolled_aimesh :: "ardevice \<Rightarrow> ardevice" where
  "unpolled_aimesh s =
     (case sensor_handler s of
        None \<Rightarrow> s
      | Some h \<Rightarrow>
          if AIMESH \<in> set (sensor_coordinator s) then
            (case update_aimesh (aimesh_number s) (aimesh_list s) h of
               (True, h') \<Rightarrow> log (Refresh AIMESH) (s\<lparr>sensor_handler := Some h'\<rparr>)
             | (False, h') \<Rightarrow> s\<lparr>sensor_handler := Some h'\<rparr>)
          else s)"

definition unpolled_devices :: "ardevice \<Rightarrow> ardevice" where
  "unpolled_devices s =
     (case sensor_handler s of
        None \<Rightarrow> s
      | Some h \<Rightarrow>
          if DEVICES \<in> set (sensor_coordinator s) then
            (case update_clients (latest_connected_list s) (clients_number s) (clients_list s)
                    (latest_connected s) RouterList h of
               (True, h') \<Rightarrow> log (Refresh DEVICES) (s\<lparr>sensor_handler := Some h'\<rparr>)
             | (False, h') \<Rightarrow> s\<lparr>sensor_handler := Some h'\<rparr>)
          else s)"

definition update_unpolled_sensors :: "ardevice \<Rightarrow> ardevice" where
  "update_unpolled_sensors s = unpolled_devices (unpolled_aimesh s)"

section \<open>The device-update pass\<close>

text \<open>
  ``Update known clients'': for every tracked client, in dictionary order, its record is
  popped from the working copy \<open>work\<close> of the snapshot and handed to its \<^verbatim>\<open>update\<close>.
\<close>

fun update_known ::
  "env \<Rightarrow> int \<Rightarrow> int \<Rightarrow> (string \<times> client) list \<Rightarrow> (string \<times> api_client) list \<Rightarrow> ardevice
     \<Rightarrow> exn option \<times> (string \<times> client) list \<times> (string \<times> api_client) list \<times> ardevice" where
  "update_known env now consider_home [] work s = (None, [], work, s)"
| "update_known env now consider_home ((mac, c) # rest) work s =
     (case client_update env (map_of work mac) (Some consider_home) c of
        (c', calls) \<Rightarrow>
          (case run_calls now calls s of
             (Some e, s') \<Rightarrow> (Some e, (mac, c') # rest, AList.delete mac work, s')
           | (None, s') \<Rightarrow>
               (case update_known env now consider_home rest (AList.delete mac work) s' of
                  (ex, rest', work', s'') \<Rightarrow> (ex, (mac, c') # rest', work', s''))))"

text \<open>
  ``Add new clients'': what is left of the working copy. A client whose \<^verbatim>\<open>update\<close>
  raises is not stored.
\<close>

fun add_new ::
  "env \<Rightarrow> int \<Rightarrow> (string \<times> api_client) list \<Rightarrow> client list \<Rightarrow> ardevice
     \<Rightarrow> exn option \<times> client list \<times> ardevice" where
  "add_new env now [] new_clients s = (None, new_clients, s)"
| "add_new env now ((mac, info) # work) new_clients s =
     (case client_update env (Some info) None (new_client env mac) of
        (c, calls) \<Rightarrow>
          (case run_calls now calls s of
             (Some e, s') \<Rightarrow> (Some e, new_clients, s')
           | (None, s') \<Rightarrow>
               add_new env now work (new_clients @ [c])
                 (s'\<lparr>clients := AList.update mac c (clients s')\<rparr>)))"

fun notify_new :: "client list \<Rightarrow> ardevice \<Rightarrow> ardevice" where
  "notify_new [] s = s"
| "notify_new (c # cs) s =
     notify_new cs (fire_event ''device_connected'' (ClientArgs (identity c)) s)"

text \<open>``Connected clients sensor'': the loop over \<^verbatim>\<open>self._clients.items()\<close>.\<close>

fun count_clients ::
  "(string \<times> client) list \<Rightarrow> nat \<times> identity list \<Rightarrow> nat \<times> identity list" where
  "count_clients [] acc = acc"
| "count_clients ((mac, c) # cs) (n, lst) =
     (if state c then count_clients cs (n + 1, lst @ [identity c])
      else count_clients cs (n, lst))"

text \<open>The dictionary comprehension \<^verbatim>\<open>{format_mac(mac): client for mac, client in ...}\<close>.\<close>

definition formatted :: "(string \<Rightarrow> string) \<Rightarrow> (string \<times> 'a) list \<Rightarrow> (string \<times> 'a) list" where
  "formatted fmt api = foldl (\<lambda>d (mac, v). AList.update (fmt mac) v d) [] api"

text \<open>The pass from ``Get clients'' on, once the snapshot is there.\<close>

definition reconcile_clients ::
  "env \<Rightarrow> int \<Rightarrow> (string \<times> api_client) list \<Rightarrow> ardevice \<Rightarrow> exn option \<times> ardevice" where
  "reconcile_clients env now api_clients s =
     (case update_known env now (opt_consider_home (opts s)) (clients s)
             (formatted (format_mac env) api_clients) s of
        (Some e, known, work, s1) \<Rightarrow> (Some e, s1\<lparr>clients := known\<rparr>)
      | (None, known, work, s1) \<Rightarrow>
          (case add_new env now work [] (s1\<lparr>clients := known\<rparr>) of
             (Some e, new_clients, s2) \<Rightarrow> (Some e, s2)
           | (None, new_clients, s2) \<Rightarrow>
               (let s3 = notify_new new_clients s2;
                    (number, lst) = count_clients (clients s3) (0, []);
                    s4 = log (Dispatch SignalDeviceUpdate)
                           (s3\<lparr>clients_number := number, clients_list := lst\<rparr>);
                    s5 = (if work \<noteq> [] then log (Dispatch SignalDeviceNew) s4 else s4)
                in (None, update_unpolled_sensors s5))))"

text \<open>
  \<^verbatim>\<open>ARDevice.update_devices\<close> from its second debug line on: the fetch, the error flag,
  and the reconciliation.
\<close>

definition fetch_and_reconcile ::
  "env \<Rightarrow> int \<Rightarrow> (string \<times> api_client) list fetched \<Rightarrow> ardevice \<Rightarrow> exn option \<times> ardevice" where
  "fetch_and_reconcile env now fetch s1 =
     (let s2 = log (LogDebug ''Updating AsusRouter device list'') s1
      in case fetch of
           UpdateFailed ex \<Rightarrow>
             (None,
              if \<not> connect_error s2
              then log (LogError ''Error connecting for device update'')
                     (s2\<lparr>connect_error := True\<rparr>)
              else s2)
         | Snapshot api \<Rightarrow>
             (let api_clients =
                    (if dev_mode s2 = MEDIA_BRIDGE
                     then filter (\<lambda>(mac, c). ac_connection c \<noteq> None
                                    \<and> ac_connection c = Some WIRED) api
                     else api);
                  s3 = (if connect_error s2
                        then log (LogInfo ''Reconnected'') (s2\<lparr>connect_error := False\<rparr>)
                        else s2)
              in reconcile_clients env now api_clients s3))"

text \<open>
  \<^verbatim>\<open>ARDevice.update_devices\<close>: the \<^verbatim>\<open>trackDevices\<close> option chooses the first debug line;
  the pass goes on in both branches.
\<close>

definition update_devices ::
  "env \<Rightarrow> int \<Rightarrow> (string \<times> api_client) list fetched \<Rightarrow> ardevice \<Rightarrow> exn option \<times> ardevice" where
  "update_devices env now fetch s =
     fetch_and_reconcile env now fetch
       (log (LogDebug (if opt_track_devices (opts s) = False
                       then ''Device tracking is disabled''
                       else ''Device tracking is enabled'')) s)"

section \<open>The node-update pass\<close>

fun update_known_nodes ::
  "env \<Rightarrow> (string \<times> aimesh_node) list \<Rightarrow> (string \<times> api_node) list \<Rightarrow> ardevice
     \<Rightarrow> (string \<times> aimesh_node) list \<times> (string \<times> api_node) list \<times> ardevice" where
  "update_known_nodes env [] work s = ([], work, s)"
| "update_known_nodes env ((mac, n) # rest) work s =
     (case node_update env (map_of work mac) n of
        (n', calls) \<Rightarrow>
          (case update_known_nodes env rest (AList.delete mac work) (run_events calls s) of
             (rest', work', s') \<Rightarrow> ((mac, n') # rest', work', s')))"

fun add_new_nodes ::
  "env \<Rightarrow> (string \<times> api_node) list \<Rightarrow> aimesh_node list \<Rightarrow> ardevice
     \<Rightarrow> aimesh_node list \<times> ardevice" where
  "add_new_nodes env [] new_nodes s = (new_nodes, s)"
| "add_new_nodes env ((mac, info) # work) new_nodes s =
     (case node_update env (Some info) (new_node env mac) of
        (n, calls) \<Rightarrow>
          add_new_nodes env work (new_nodes @ [n])
            ((run_events calls s)\<lparr>aimesh := AList.update mac n (aimesh (run_events calls s))\<rparr>))"

text \<open>
  \<^verbatim>\<open>CONF_EVENT_NODE_CONNECTED\<close> is a constant of \<^verbatim>\<open>const.py\<close>; it is the parameter
  \<open>node_event\<close>.
\<close>

fun notify_new_nodes :: "string \<Rightarrow> aimesh_node list \<Rightarrow> ardevice \<Rightarrow> ardevice" where
  "notify_new_nodes node_event [] s = s"
| "notify_new_nodes node_event (n # ns) s =
     notify_new_nodes node_event ns (fire_event node_event (NodeArgs (node_identity n)) s)"

text \<open>
  ``AiMesh sensors'': the count steps for a connected node; the append is outside the
  \<^verbatim>\<open>if\<close>.
\<close>

fun count_nodes ::
  "(string \<times> aimesh_node) list \<Rightarrow> nat \<times> node_identity list \<Rightarrow> nat \<times> node_identity list" where
  "count_nodes [] acc = acc"
| "count_nodes ((mac, n) # ns) (k, lst) =
     count_nodes ns
       ((if n_connected (node_identity n) then k + 1 else k), lst @ [node_identity n])"

text \<open>\<^verbatim>\<open>ARDevice.update_nodes\<close>\<close>

definition update_nodes ::
  "env \<Rightarrow> string \<Rightarrow> (string \<times> api_node) list fetched \<Rightarrow> ardevice \<Rightarrow> ardevice" where
  "update_nodes env node_event fetch s =
     (let s1 = log (LogDebug ''Updating AiMesh status'') s
      in case fetch of
           UpdateFailed ex \<Rightarrow>
             (if \<not> connect_error s1
              then log (LogError ''Error connecting for device update'')
                     (s1\<lparr>connect_error := True\<rparr>)
              else s1)
         | Snapshot api \<Rightarrow>
             (case update_known_nodes env (aimesh s1) (formatted (format_mac env) api) s1 of
                (known, work, s2) \<Rightarrow>
                  (case add_new_nodes env work [] (s2\<lparr>aimesh := known\<rparr>) of
                     (new_nodes, s3) \<Rightarrow>
                       (let s4 = notify_new_nodes node_event new_nodes s3;
                            (number, lst) = count_nodes (aimesh s4) (0, []);
                            s5 = log (Dispatch SignalAimeshUpdate)
                                   (s4\<lparr>aimesh_number := number, aimesh_list := lst\<rparr>)
                        in if work \<noteq> [] then log (Dispatch SignalAimeshNew) s5 else s5))))"

section \<open>One tick, and the removal of trackers\<close>

text \<open>\<^verbatim>\<open>ARDevice.update_all\<close>\<close>

definition update_all ::
  "env \<Rightarrow> string \<Rightarrow> int \<Rightarrow> (string \<times> api_client) list fetched
     \<Rightarrow> (string \<times> api_node) list fetched \<Rightarrow> ardevice \<Rightarrow> exn option \<times> ardevice" where
  "update_all env node_event now fetch_clients fetch_nodes s =
     (if dev_mode s \<in> {ACCESS_POINT, MEDIA_BRIDGE, ROUTER} then
        (case update_devices env now fetch_clients s of
           (Some e, s') \<Rightarrow> (Some e, s')
         | (None, s') \<Rightarrow> (None, update_nodes env node_event fetch_nodes s'))
      else (None, s))"

text \<open>
  What the entity registry knows of an entity named in a \<^verbatim>\<open>remove_trackers\<close> call: no
  \<^verbatim>\<open>RegistryEntry\<close>, or an entry whose capabilities may hold a \<^verbatim>\<open>MAC\<close>.
\<close>

datatype reg_lookup = NotRegistered | Registered "string option"

fun pop_trackers :: "reg_lookup list \<Rightarrow> ardevice \<Rightarrow> exn option \<times> ardevice" where
  "pop_trackers [] s = (None, s)"
| "pop_trackers (NotRegistered # es) s = pop_trackers es s"
| "pop_trackers (Registered None # es) s = (Some KeyError, s)"
| "pop_trackers (Registered (Some mac) # es) s =
     (let s1 = log (LogDebug ''Trying to remove tracker'') s
      in if mac \<in> fst ` set (clients s1)
         then pop_trackers es
                (log (LogDebug ''Found and removed'')
                   (s1\<lparr>clients := AList.delete mac (clients s1)\<rparr>))
         else pop_trackers es s1)"

text \<open>
  \<^verbatim>\<open>ARDevice.remove_trackers\<close>, up to the reload of the device tracker platform (a call
  into Home Assistant). \<open>raw = None\<close> is no \<^verbatim>\<open>raw\<close> argument; \<open>Some None\<close> is a \<^verbatim>\<open>raw\<close>
  without \<^verbatim>\<open>"entities"\<close>.
\<close>

definition remove_trackers ::
  "env \<Rightarrow> int \<Rightarrow> reg_lookup list option option \<Rightarrow> (string \<times> api_client) list fetched
     \<Rightarrow> ardevice \<Rightarrow> exn option \<times> ardevice" where
  "remove_trackers env now raw fetch s =
     (let s1 = log (LogDebug ''Removing trackers'') s
      in case raw of
           None \<Rightarrow> (None, s1)
         | Some entities \<Rightarrow>
             (case (case entities of None \<Rightarrow> (None, s1) | Some es \<Rightarrow> pop_trackers es s1) of
                (Some e, s2) \<Rightarrow> (Some e, s2)
              | (None, s2) \<Rightarrow> update_devices env now fetch s2))"

text \<open>The state \<^verbatim>\<open>ARDevice.__init__\<close> builds.\<close>

definition new_ardevice :: "options \<Rightarrow> mode \<Rightarrow> ardevice" where
  "new_ardevice os m =
     \<lparr>opts = os, dev_mode = m, aimesh = [], clients = [], clients_number = 0,
      clients_list = [], aimesh_number = 0, aimesh_list = [], latest_connected = PyNone,
      latest_connected_list = [], connect_error = False, sensor_handler = None,
      sensor_coordinator = [], trace = []\<rparr>"

section \<open>Sequences of calls and sample values\<close>

text \<open>
  A run of \<^verbatim>\<open>connected_device\<close> calls on one router, each with the time at which it is
  made. The router object outlives a call that raises, so the next call starts from the
  state the failed one left.
\<close>

fun record_connections :: "(int \<times> identity) list \<Rightarrow> ardevice \<Rightarrow> ardevice" where
  "record_connections [] s = s"
| "record_connections ((now, ident) # calls) s =
     record_connections calls (snd (connected_device now ident s))"

text \<open>The list \<^verbatim>\<open>connected_device\<close> holds right after its \<^verbatim>\<open>append\<close>.\<close>

definition appended :: "int \<Rightarrow> identity \<Rightarrow> string \<Rightarrow> ardevice \<Rightarrow> identity list" where
  "appended now ident mac s =
     sort_key (connected_device_time now) (remove_known 0 mac (latest_connected_list s)) @ [ident]"

text \<open>An identity with a MAC and a connection time, and options with a given bound.\<close>

definition dev :: "string \<Rightarrow> int \<Rightarrow> identity" where
  "dev mac t = \<lparr>id_mac = Some mac, id_connected = Some (PyDatetime t), id_attrs = []\<rparr>"

definition limit_options :: "int \<Rightarrow> options" where
  "limit_options n =
     \<lparr>opt_track_devices = True, opt_latest_connected = n, opt_consider_home = 45,
      opt_events = []\<rparr>"


text \<open>
  A sample of the functions that are taken as parameters, for concrete runs: a client is
  connected when the snapshot holds it and reports its identity to \<^verbatim>\<open>connected_call\<close>
  when it turns connected; a node is connected once a snapshot has held it.
\<close>

definition sample_env :: env where
  "sample_env =
     \<lparr>format_mac = (\<lambda>mac. mac),
      new_client = (\<lambda>mac. \<lparr>state = False,
                            identity = \<lparr>id_mac = Some mac, id_connected = None, id_attrs = []\<rparr>\<rparr>),
      client_update = (\<lambda>info consider_home c.
         case info of
           None \<Rightarrow> (c\<lparr>state := False\<rparr>, [])
         | Some i \<Rightarrow> (c\<lparr>state := True\<rparr>, if state c then [] else [ConnectedCall (identity c)])),
      new_node = (\<lambda>mac. \<lparr>node_identity = \<lparr>n_connected = False, n_attrs = [(''mac'', mac)]\<rparr>\<rparr>),
      node_update = (\<lambda>info n.
         case info of
           None \<Rightarrow> (n, [])
         | Some i \<Rightarrow> (n\<lparr>node_identity := (node_identity n)\<lparr>n_connected := True\<rparr>\<rparr>, []))\<rparr>"

definition sample_client :: api_client where
  "sample_client = \<lparr>ac_connection = Some WIRED, ac_info = []\<rparr>"

definition sample_node :: api_node where
  "sample_node = \<lparr>an_info = []\<rparr>"

text \<open>A router whose sensor handler and coordinators are initialised.\<close>

definition sample_router :: "bool \<Rightarrow> ardevice" where
  "sample_router track =
     (new_ardevice ((limit_options 5)\<lparr>opt_track_devices := track\<rparr>) ROUTER)
       \<lparr>sensor_handler := Some new_sensor_handler, sensor_coordinator := [AIMESH, DEVICES]\<rparr>"

text \<open>
  Two states that differ at most in the history (the list and the latest time) and in the
  trace.
\<close>

definition frame :: "ardevice \<Rightarrow> ardevice \<Rightarrow> bool" where
  "frame s t \<longleftrightarrow>
     opts t = opts s \<and> dev_mode t = dev_mode s \<and> aimesh t = aimesh s \<and> clients t = clients s
     \<and> clients_number t = clients_number s \<and> clients_list t = clients_list s
     \<and> aimesh_number t = aimesh_number s \<and> aimesh_list t = aimesh_list s
     \<and> connect_error t = connect_error s \<and> sensor_handler t = sensor_handler s
     \<and> sensor_coordinator t = sensor_coordinator s"

text \<open>A router that tracks one mesh node whose link is down.\<close>

definition stale_node_router :: ardevice where
  "stale_node_router =
     (sample_router True)
       \<lparr>aimesh := [(''n1'', \<lparr>node_identity = \<lparr>n_connected = False, n_attrs = []\<rparr>\<rparr>)]\<rparr>"

text \<open>
  The state \<open>s\<close> with the \<^verbatim>\<open>trackDevices\<close> option set to \<open>b\<close> and the effects \<open>pre\<close> put
  before its trace.
\<close>

definition retag :: "effect list \<Rightarrow> bool \<Rightarrow> ardevice \<Rightarrow> ardevice" where
  "retag pre b s = s\<lparr>opts := (opts s)\<lparr>opt_track_devices := b\<rparr>, trace := pre @ trace s\<rparr>"

text \<open>The number of error lines in a log.\<close>

definition error_lines :: "effect list \<Rightarrow> nat" where
  "error_lines tr = length (filter (\<lambda>e. case e of LogError m \<Rightarrow> True | _ \<Rightarrow> False) tr)"

text \<open>
  A run of passes whose fetches all fail: \<open>True\<close> is a node pass, \<open>False\<close> a client pass.
\<close>

fun failing_streak :: "env \<Rightarrow> string \<Rightarrow> int \<Rightarrow> bool list \<Rightarrow> ardevice \<Rightarrow> ardevice" where
  "failing_streak env ev now [] s = s"
| "failing_streak env ev now (node_pass # ps) s =
     failing_streak env ev now ps
       (if node_pass then update_nodes env ev (UpdateFailed ''unreachable'') s
        else snd (update_devices env now (UpdateFailed ''unreachable'') s))"

text \<open>The coordinators that a trace asks to refresh, in order.\<close>

definition refreshes :: "effect list \<Rightarrow> sensor_type list" where
  "refreshes tr = concat (map (\<lambda>e. case e of Refresh k \<Rightarrow> [k] | _ \<Rightarrow> []) tr)"

text \<open>
  The node tuple, respectively the client tuple, of the state \<open>s\<close> is published to a
  handler \<open>h\<close>: the coordinator is registered and the tuple is not \<^verbatim>\<open>==\<close> to the one the
  handler holds.
\<close>

definition nodes_published :: "ardevice \<Rightarrow> sensor_handler \<Rightarrow> bool" where
  "nodes_published s h \<longleftrightarrow>
     AIMESH \<in> set (sensor_coordinator s)
     \<and> \<not> (h_aimesh_number h = aimesh_number s \<and> h_aimesh_list h = aimesh_list s)"

definition clients_published :: "ardevice \<Rightarrow> sensor_handler \<Rightarrow> bool" where
  "clients_published s h \<longleftrightarrow>
     DEVICES \<in> set (sensor_coordinator s)
     \<and> \<not> (h_clients_number h = clients_number s \<and> h_clients_list h = clients_list s
          \<and> h_latest_connected h = latest_connected s
          \<and> deref (latest_connected_list s) (h_latest_connected_list h)
               = latest_connected_list s)"

text \<open>The handler \<open>h\<close> after it has stored the tuples of \<open>s\<close> that are published.\<close>

definition published_handler :: "ardevice \<Rightarrow> sensor_handler \<Rightarrow> sensor_handler" where
  "published_handler s h =
     (let h1 = (if nodes_published s h
                then h\<lparr>h_aimesh_number := aimesh_number s, h_aimesh_list := aimesh_list s\<rparr>
                else h)
      in if clients_published s h
         then h1\<lparr>h_clients_number := clients_number s, h_clients_list := clients_list s,
                h_latest_connected := latest_connected s,
                h_latest_connected_list := RouterList\<rparr>
         else h1)"

section \<open>The loops of the history\<close>

lemma evict_nonneg: "0 \<le> limit \<Longrightarrow> evict limit xs = (None, drop (length xs - nat limit) xs)"
  by (induction xs) (auto simp: Suc_diff_le nat_le_iff)

lemma evict_neg: "limit < 0 \<Longrightarrow> evict limit xs = (Some IndexError, [])"
  by (induction xs) auto

lemma remove_known_no_match:
  "Some mac \<notin> id_mac ` set lst \<Longrightarrow> remove_known i mac lst = lst"
proof (induction i mac lst rule: remove_known.induct)
  case (1 i mac lst)
  show ?case
  proof (cases "i < length lst")
    case True
    then have "lst ! i \<in> set lst" by simp
    with "1.prems" have nm: "id_mac (lst ! i) \<noteq> Some mac" by force
    with True "1.IH"(2) "1.prems" show ?thesis
      by (subst remove_known.simps) simp
  next
    case False
    then show ?thesis by (subst remove_known.simps) simp
  qed
qed

lemma remove1_distinct_key:
  "distinct (map f xs) \<Longrightarrow> x \<in> set xs \<Longrightarrow> remove1 x xs = filter (\<lambda>y. f y \<noteq> f x) xs"
  by (induction xs) (auto simp: image_iff intro!: filter_True[symmetric])

lemma remove_known_subset: "set (remove_known i mac lst) \<subseteq> set lst"
proof (induction i mac lst rule: remove_known.induct)
  case (1 i mac lst)
  show ?case
  proof (cases "i < length lst")
    case True
    show ?thesis
    proof (cases "id_mac (lst ! i) = Some mac")
      case m: True
      have "set (remove_known (Suc i) mac (remove1 (lst ! i) lst)) \<subseteq> set (remove1 (lst ! i) lst)"
        using "1.IH"(1)[OF True m] .
      also have "\<dots> \<subseteq> set lst" by (rule set_remove1_subset)
      finally show ?thesis using True m by (subst remove_known.simps) simp
    next
      case m: False
      then show ?thesis using True "1.IH"(2)[OF True m] by (subst remove_known.simps) simp
    qed
  next
    case False
    then show ?thesis by (subst remove_known.simps) simp
  qed
qed

lemma remove_known_distinct:
  "distinct (map id_mac lst) \<Longrightarrow> Some mac \<notin> id_mac ` set (take i lst)
    \<Longrightarrow> remove_known i mac lst = filter (\<lambda>d. id_mac d \<noteq> Some mac) lst"
proof (induction i mac lst rule: remove_known.induct)
  case (1 i mac lst)
  show ?case
  proof (cases "i < length lst")
    case True
    show ?thesis
    proof (cases "id_mac (lst ! i) = Some mac")
      case m: True
      have mem: "lst ! i \<in> set lst" using True by simp
      have r: "remove1 (lst ! i) lst = filter (\<lambda>d. id_mac d \<noteq> Some mac) lst"
        using remove1_distinct_key[OF "1.prems"(1) mem] m by simp
      have "remove_known (Suc i) mac (filter (\<lambda>d. id_mac d \<noteq> Some mac) lst)
              = filter (\<lambda>d. id_mac d \<noteq> Some mac) lst"
        by (rule remove_known_no_match) auto
      then show ?thesis using True m r by (subst remove_known.simps) simp
    next
      case m: False
      have "Some mac \<notin> id_mac ` set (take (Suc i) lst)"
        using "1.prems"(2) m True by (auto simp: take_Suc_conv_app_nth)
      then show ?thesis using True m "1.IH"(2)[OF True m "1.prems"(1)]
        by (subst remove_known.simps) simp
    qed
  next
    case False
    then have "take i lst = lst" by simp
    with "1.prems"(2) have "filter (\<lambda>d. id_mac d \<noteq> Some mac) lst = lst"
      by (intro filter_True) force
    then show ?thesis using False by (subst remove_known.simps) simp
  qed
qed

section \<open>One call of \<^verbatim>\<open>connected_device\<close>\<close>

lemma connected_device_no_mac:
  "id_mac ident = None \<or> id_mac ident = Some [] \<Longrightarrow> connected_device now ident s = (None, s)"
  by (auto simp: connected_device_def)

lemma connected_device_neg:
  assumes "id_mac ident = Some mac" "mac \<noteq> []" "opt_latest_connected (opts s) \<le> 0"
  shows "connected_device now ident s = (Some IndexError, s\<lparr>latest_connected_list := []\<rparr>)"
proof (cases "opt_latest_connected (opts s) < 0")
  case True
  then show ?thesis using assms by (simp add: connected_device_def evict_neg)
next
  case False
  with assms have "opt_latest_connected (opts s) = 0" by simp
  then show ?thesis using assms by (simp add: connected_device_def evict_nonneg)
qed

lemma connected_device_pos:
  assumes "id_mac ident = Some mac" "mac \<noteq> []" "1 \<le> opt_latest_connected (opts s)"
  shows "connected_device now ident s =
           (None, s\<lparr>latest_connected_list :=
                      drop (length (appended now ident mac s) - nat (opt_latest_connected (opts s)))
                        (appended now ident mac s),
                    latest_connected := get_connected ident\<rparr>)"
proof -
  let ?a = "appended now ident mac s"
  let ?d = "drop (length ?a - nat (opt_latest_connected (opts s))) ?a"
  have len: "length ?a - nat (opt_latest_connected (opts s)) < length ?a"
    using assms(3) by (simp add: appended_def)
  then have ne: "?d \<noteq> []" by simp
  have "last ?d = last ?a" using len by (simp add: last_drop)
  then have l: "last ?d = ident" by (simp add: appended_def)
  obtain x xs where d: "?d = x # xs" using ne by (cases ?d) auto
  have ev: "evict (opt_latest_connected (opts s)) ?a = (None, x # xs)"
    using assms(3) d by (simp add: evict_nonneg)
  show ?thesis
    using assms(1,2) ev l d
    by (simp add: connected_device_def appended_def[symmetric] Let_def)
qed

lemma connected_device_opts: "opts (snd (connected_device now ident s)) = opts s"
  by (auto simp: connected_device_def Let_def split: option.splits prod.splits list.splits)

lemma connected_device_list:
  assumes "id_mac ident = Some mac" "mac \<noteq> []" "0 \<le> opt_latest_connected (opts s)"
  shows "latest_connected_list (snd (connected_device now ident s)) =
           drop (length (appended now ident mac s) - nat (opt_latest_connected (opts s)))
             (appended now ident mac s)"
proof (cases "1 \<le> opt_latest_connected (opts s)")
  case True
  then show ?thesis using assms by (simp add: connected_device_pos)
next
  case False
  with assms(3) have z: "opt_latest_connected (opts s) = 0" by simp
  then show ?thesis using assms by (simp add: connected_device_neg)
qed

lemma connected_device_bound:
  assumes "0 \<le> opt_latest_connected (opts s)"
    and "int (length (latest_connected_list s)) \<le> opt_latest_connected (opts s)"
  shows "int (length (latest_connected_list (snd (connected_device now ident s))))
           \<le> opt_latest_connected (opts s)"
proof (cases "\<exists>mac. id_mac ident = Some mac \<and> mac \<noteq> []")
  case True
  then obtain mac where m: "id_mac ident = Some mac" "mac \<noteq> []" by blast
  show ?thesis using assms(1) by (simp add: connected_device_list[OF m assms(1)])
next
  case False
  then have "id_mac ident = None \<or> id_mac ident = Some []" by (cases "id_mac ident") auto
  then show ?thesis using assms(2) by (simp add: connected_device_no_mac)
qed

lemma record_connections_opts: "opts (record_connections calls s) = opts s"
  by (induction calls s rule: record_connections.induct) (simp_all add: connected_device_opts)

lemma record_connections_bound:
  "0 \<le> opt_latest_connected (opts s)
   \<Longrightarrow> int (length (latest_connected_list s)) \<le> opt_latest_connected (opts s)
   \<Longrightarrow> int (length (latest_connected_list (record_connections calls s)))
         \<le> opt_latest_connected (opts s)"
proof (induction calls s rule: record_connections.induct)
  case (1 s)
  then show ?case by simp
next
  case (2 now ident calls s)
  let ?s' = "snd (connected_device now ident s)"
  have o: "opts ?s' = opts s" by (rule connected_device_opts)
  have "int (length (latest_connected_list ?s')) \<le> opt_latest_connected (opts s)"
    using "2.prems" by (rule connected_device_bound)
  with "2.IH"[unfolded o] "2.prems"(1) show ?case by simp
qed

text \<open>
  For a configured maximum that is not negative, the history never holds more entries
  than the maximum after any run of \<^verbatim>\<open>connected_device\<close> calls on a new router, whether
  a call returns or raises; and a call with a MAC leaves the list it had after its
  \<^verbatim>\<open>append\<close> with just as many entries dropped from index 0 as the bound demands. The
  entry at index 0 need not be the oldest of that list.
\<close>

theorem history_never_exceeds_limit:
  assumes "0 \<le> opt_latest_connected os"
  shows "int (length (latest_connected_list (record_connections calls (new_ardevice os m))))
           \<le> opt_latest_connected os
         \<and> (id_mac ident = Some mac \<and> mac \<noteq> [] \<and> opts s = os \<longrightarrow>
              latest_connected_list (snd (connected_device now ident s)) =
                drop (length (appended now ident mac s) - nat (opt_latest_connected os))
                  (appended now ident mac s))"
proof
  have "opts (new_ardevice os m) = os" by (simp add: new_ardevice_def)
  moreover have "latest_connected_list (new_ardevice os m) = []" by (simp add: new_ardevice_def)
  ultimately show "int (length (latest_connected_list (record_connections calls (new_ardevice os m))))
           \<le> opt_latest_connected os"
    using record_connections_bound[of "new_ardevice os m" calls] assms by simp
next
  show "id_mac ident = Some mac \<and> mac \<noteq> [] \<and> opts s = os \<longrightarrow>
              latest_connected_list (snd (connected_device now ident s)) =
                drop (length (appended now ident mac s) - nat (opt_latest_connected os))
                  (appended now ident mac s)"
    using assms connected_device_list by auto
qed

theorem history_never_exceeds_limit_witness:
  "0 \<le> opt_latest_connected (limit_options 2)
   \<and> id_mac (dev ''cc'' 3) = Some ''cc'' \<and> ''cc'' \<noteq> []
   \<and> opts (record_connections [(1, dev ''aa'' 1), (2, dev ''bb'' 2)]
              (new_ardevice (limit_options 2) ROUTER)) = limit_options 2
   \<and> int (length (latest_connected_list
         (record_connections [(1, dev ''aa'' 1), (2, dev ''bb'' 2), (3, dev ''cc'' 3)]
            (new_ardevice (limit_options 2) ROUTER)))) \<le> 2
   \<and> latest_connected_list (snd (connected_device 3 (dev ''cc'' 3)
         (record_connections [(1, dev ''aa'' 1), (2, dev ''bb'' 2)]
            (new_ardevice (limit_options 2) ROUTER)))) = [dev ''bb'' 2, dev ''cc'' 3]"
proof -
  let ?s = "record_connections [(1, dev ''aa'' 1), (2, dev ''bb'' 2)]
              (new_ardevice (limit_options 2) ROUTER)"
  have h: "0 \<le> opt_latest_connected (limit_options 2)" by (simp add: limit_options_def)
  have m: "id_mac (dev ''cc'' 3) = Some ''cc'' \<and> ''cc'' \<noteq> [] \<and> opts ?s = limit_options 2"
    by (simp add: dev_def connected_device_opts new_ardevice_def)
  have a: "appended 3 (dev ''cc'' 3) ''cc'' ?s = [dev ''aa'' 1, dev ''bb'' 2, dev ''cc'' 3]"
    by code_simp
  note t = history_never_exceeds_limit [OF h, of _ ROUTER "dev ''cc'' 3" "''cc''" ?s 3]
  have b: "int (length (latest_connected_list
         (record_connections [(1, dev ''aa'' 1), (2, dev ''bb'' 2), (3, dev ''cc'' 3)]
            (new_ardevice (limit_options 2) ROUTER)))) \<le> 2"
    using conjunct1 [OF t [of "[(1, dev ''aa'' 1), (2, dev ''bb'' 2), (3, dev ''cc'' 3)]"]]
    by (simp only: limit_options_def options.simps)
  have c0: "latest_connected_list (snd (connected_device 3 (dev ''cc'' 3) ?s))
             = drop (length (appended 3 (dev ''cc'' 3) ''cc'' ?s)
                       - nat (opt_latest_connected (limit_options 2)))
                 (appended 3 (dev ''cc'' 3) ''cc'' ?s)"
    by (rule mp [OF conjunct2 [OF t [of "[]"]] m])
  have c: "latest_connected_list (snd (connected_device 3 (dev ''cc'' 3) ?s))
             = [dev ''bb'' 2, dev ''cc'' 3]"
    unfolding c0 a by (simp add: limit_options_def)
  from h m b c show ?thesis by blast
qed

text \<open>
  Claim C10. With the maximum 0, a call whose identity has a MAC raises \<^verbatim>\<open>IndexError\<close>:
  the eviction loop has emptied the list when its last element is read. With a maximum
  of at least 1 no call raises, and after a call with a MAC the list is not empty and
  its last element is the identity just recorded.
\<close>

theorem connected_device_total_iff_limit:
  "(opt_latest_connected (opts s) = 0 \<and> id_mac ident = Some mac \<and> mac \<noteq> [] \<longrightarrow>
      connected_device now ident s = (Some IndexError, s\<lparr>latest_connected_list := []\<rparr>))
   \<and> (1 \<le> opt_latest_connected (opts s) \<longrightarrow>
        fst (connected_device now ident s) = None
        \<and> (id_mac ident = Some mac \<and> mac \<noteq> [] \<longrightarrow>
             latest_connected_list (snd (connected_device now ident s)) \<noteq> []
             \<and> last (latest_connected_list (snd (connected_device now ident s))) = ident))"
proof (intro conjI impI)
  assume "opt_latest_connected (opts s) = 0 \<and> id_mac ident = Some mac \<and> mac \<noteq> []"
  then show "connected_device now ident s = (Some IndexError, s\<lparr>latest_connected_list := []\<rparr>)"
    by (simp add: connected_device_neg)
next
  assume p: "1 \<le> opt_latest_connected (opts s)"
  show "fst (connected_device now ident s) = None"
  proof (cases "\<exists>mac. id_mac ident = Some mac \<and> mac \<noteq> []")
    case True
    then show ?thesis using p by (auto simp: connected_device_pos)
  next
    case False
    then have "id_mac ident = None \<or> id_mac ident = Some []" by (cases "id_mac ident") auto
    then show ?thesis by (simp add: connected_device_no_mac)
  qed
next
  assume p: "1 \<le> opt_latest_connected (opts s)" and m: "id_mac ident = Some mac \<and> mac \<noteq> []"
  let ?a = "appended now ident mac s"
  have len: "length ?a - nat (opt_latest_connected (opts s)) < length ?a"
    using p by (simp add: appended_def)
  then show "latest_connected_list (snd (connected_device now ident s)) \<noteq> []"
    using p m by (simp add: connected_device_pos)
  have "last (drop (length ?a - nat (opt_latest_connected (opts s))) ?a) = last ?a"
    using len by (simp add: last_drop)
  then show "last (latest_connected_list (snd (connected_device now ident s))) = ident"
    using p m by (simp add: connected_device_pos) (simp add: appended_def)
qed

theorem connected_device_total_iff_limit_witness:
  "opt_latest_connected (opts (new_ardevice (limit_options 0) ROUTER)) = 0
   \<and> id_mac (dev ''aa'' 1) = Some ''aa'' \<and> ''aa'' \<noteq> []
   \<and> connected_device 1 (dev ''aa'' 1) (new_ardevice (limit_options 0) ROUTER)
       = (Some IndexError, new_ardevice (limit_options 0) ROUTER)
   \<and> 1 \<le> opt_latest_connected (opts (new_ardevice (limit_options 1) ROUTER))
   \<and> fst (connected_device 1 (dev ''aa'' 1) (new_ardevice (limit_options 1) ROUTER)) = None
   \<and> last (latest_connected_list
         (snd (connected_device 1 (dev ''aa'' 1) (new_ardevice (limit_options 1) ROUTER))))
       = dev ''aa'' 1"
proof -
  let ?z = "new_ardevice (limit_options 0) ROUTER"
  let ?p = "new_ardevice (limit_options 1) ROUTER"
  have hz: "opt_latest_connected (opts ?z) = 0 \<and> id_mac (dev ''aa'' 1) = Some ''aa'' \<and> ''aa'' \<noteq> []"
    by (simp add: new_ardevice_def limit_options_def dev_def)
  have hp: "1 \<le> opt_latest_connected (opts ?p)"
    by (simp add: new_ardevice_def limit_options_def)
  have e: "?z\<lparr>latest_connected_list := []\<rparr> = ?z" by (simp add: new_ardevice_def)
  have z: "connected_device 1 (dev ''aa'' 1) ?z = (Some IndexError, ?z)"
    using connected_device_total_iff_limit [of ?z "dev ''aa'' 1" "''aa''" 1] hz e by simp
  have p: "fst (connected_device 1 (dev ''aa'' 1) ?p) = None
           \<and> last (latest_connected_list (snd (connected_device 1 (dev ''aa'' 1) ?p)))
               = dev ''aa'' 1"
    using connected_device_total_iff_limit [of ?p "dev ''aa'' 1" "''aa''" 1] hp hz by simp
  from hz z hp p show ?thesis by blast
qed

section \<open>One entry for a MAC, and the order of the history\<close>

lemma distinct_map_sort_key:
  "distinct (map f (sort_key k xs)) = distinct (map f xs)"
  by (simp add: distinct_map)

lemma appended_distinct:
  assumes "distinct (map id_mac (latest_connected_list s))" "id_mac ident = Some mac"
  shows "distinct (map id_mac (appended now ident mac s))"
proof -
  have r: "remove_known 0 mac (latest_connected_list s)
             = filter (\<lambda>d. id_mac d \<noteq> Some mac) (latest_connected_list s)"
    using assms(1) by (intro remove_known_distinct) simp_all
  have "distinct (map id_mac (filter (\<lambda>d. id_mac d \<noteq> Some mac) (latest_connected_list s)))"
    using assms(1) by (rule distinct_map_filter)
  then show ?thesis
    using assms(2) by (auto simp: appended_def r distinct_map_sort_key)
qed

lemma connected_device_distinct:
  assumes "distinct (map id_mac (latest_connected_list s))"
  shows "distinct (map id_mac (latest_connected_list (snd (connected_device now ident s))))"
proof (cases "\<exists>mac. id_mac ident = Some mac \<and> mac \<noteq> []")
  case True
  then obtain mac where m: "id_mac ident = Some mac" "mac \<noteq> []" by blast
  show ?thesis
  proof (cases "0 \<le> opt_latest_connected (opts s)")
    case True
    have "distinct (drop (length (appended now ident mac s) - nat (opt_latest_connected (opts s)))
            (map id_mac (appended now ident mac s)))"
      using appended_distinct[OF assms m(1)] by (rule distinct_drop)
    then show ?thesis by (simp add: connected_device_list[OF m True] drop_map)
  next
    case False
    then show ?thesis using m by (simp add: connected_device_neg)
  qed
next
  case False
  then have "id_mac ident = None \<or> id_mac ident = Some []" by (cases "id_mac ident") auto
  then show ?thesis using assms by (simp add: connected_device_no_mac)
qed

lemma appended_no_other:
  assumes "distinct (map id_mac (latest_connected_list s))"
  shows "appended now ident mac s =
           sort_key (connected_device_time now)
             (filter (\<lambda>d. id_mac d \<noteq> Some mac) (latest_connected_list s)) @ [ident]"
  using assms by (simp add: appended_def remove_known_distinct)

lemma connected_device_one_entry:
  assumes "distinct (map id_mac (latest_connected_list s))"
    and "id_mac ident = Some mac" "mac \<noteq> []" "1 \<le> opt_latest_connected (opts s)"
  shows "filter (\<lambda>e. id_mac e = Some mac)
           (latest_connected_list (snd (connected_device now ident s))) = [ident]"
proof -
  let ?r = "sort_key (connected_device_time now)
             (filter (\<lambda>d. id_mac d \<noteq> Some mac) (latest_connected_list s))"
  let ?k = "length (?r @ [ident]) - nat (opt_latest_connected (opts s))"
  have k: "?k \<le> length ?r" using assms(4) by simp
  have "filter (\<lambda>e. id_mac e = Some mac) (drop ?k ?r) = []"
    by (auto simp: filter_empty_conv dest!: in_set_dropD)
  moreover have "drop ?k (?r @ [ident]) = drop ?k ?r @ [ident]" using k by simp
  ultimately show ?thesis
    using assms by (simp add: connected_device_pos appended_no_other del: drop_append)
qed

lemma connected_device_sorted_in_order:
  assumes "id_mac ident = Some mac" "mac \<noteq> []"
    and "\<forall>e\<in>set (latest_connected_list s).
           connected_device_time now e \<le> connected_device_time now ident"
  shows "sorted (map (connected_device_time now)
           (latest_connected_list (snd (connected_device now ident s))))"
proof (cases "0 \<le> opt_latest_connected (opts s)")
  case True
  have "\<forall>e\<in>set (remove_known 0 mac (latest_connected_list s)).
           connected_device_time now e \<le> connected_device_time now ident"
    using assms(3) remove_known_subset by blast
  then have "sorted (map (connected_device_time now) (appended now ident mac s))"
    by (auto simp: appended_def sorted_append)
  then have "sorted (drop (length (appended now ident mac s) - nat (opt_latest_connected (opts s)))
               (map (connected_device_time now) (appended now ident mac s)))"
    by (rule sorted_wrt_drop)
  then show ?thesis by (simp add: connected_device_list[OF assms(1,2) True] drop_map)
next
  case False
  then show ?thesis using assms by (simp add: connected_device_neg)
qed

text \<open>
  Claim C1. The list is sorted before the new identity is appended, not after: a
  new router with the bound 5 that records a device connected at time 10 and then a
  device connected at time 5 holds them in that order, which is not ascending.
\<close>

theorem connected_device_out_of_order_unsorted:
  "latest_connected_list
     (record_connections [(10, dev ''aa'' 10), (11, dev ''bb'' 5)]
        (new_ardevice (limit_options 5) ROUTER)) = [dev ''aa'' 10, dev ''bb'' 5]
   \<and> \<not> sorted (map (connected_device_time 11) [dev ''aa'' 10, dev ''bb'' 5])"
  by code_simp

text \<open>
  Claim C7, as stated, fails for the bound 0: both calls empty the list and raise, so
  no entry for the MAC is left.
\<close>

theorem same_mac_twice_zero_limit_counterexample:
  "distinct (map id_mac (latest_connected_list (new_ardevice (limit_options 0) ROUTER)))
   \<and> filter (\<lambda>e. id_mac e = Some ''aa'')
       (latest_connected_list
          (record_connections [(1, dev ''aa'' 1), (2, dev ''aa'' 2)]
             (new_ardevice (limit_options 0) ROUTER))) = []"
  by code_simp

text \<open>
  Claim C7, amended. A call keeps the MACs of the history distinct, for every bound and
  whether it returns or raises. If the MACs are distinct and the bound is at least 1,
  recording two identities with the same MAC one after the other leaves exactly one
  entry with that MAC, the second identity; and if no entry that is in the list at the
  second call has a later time than the second identity, the history is then sorted
  ascending by connection time.
\<close>

theorem same_mac_twice_one_entry:
  "(distinct (map id_mac (latest_connected_list s)) \<longrightarrow>
      distinct (map id_mac (latest_connected_list (snd (connected_device now ident s)))))
   \<and> (distinct (map id_mac (latest_connected_list s))
        \<and> id_mac a = Some mac \<and> id_mac b = Some mac \<and> mac \<noteq> []
        \<and> 1 \<le> opt_latest_connected (opts s) \<longrightarrow>
        filter (\<lambda>e. id_mac e = Some mac)
          (latest_connected_list (record_connections [(t1, a), (t2, b)] s)) = [b]
        \<and> ((\<forall>e\<in>set (latest_connected_list (record_connections [(t1, a)] s)).
                connected_device_time t2 e \<le> connected_device_time t2 b) \<longrightarrow>
             sorted (map (connected_device_time t2)
               (latest_connected_list (record_connections [(t1, a), (t2, b)] s)))))"
proof (intro conjI impI)
  assume "distinct (map id_mac (latest_connected_list s))"
  then show "distinct (map id_mac (latest_connected_list (snd (connected_device now ident s))))"
    by (rule connected_device_distinct)
next
  assume h: "distinct (map id_mac (latest_connected_list s))
        \<and> id_mac a = Some mac \<and> id_mac b = Some mac \<and> mac \<noteq> []
        \<and> 1 \<le> opt_latest_connected (opts s)"
  let ?s1 = "snd (connected_device t1 a s)"
  have d1: "distinct (map id_mac (latest_connected_list ?s1))"
    using h by (intro connected_device_distinct) simp
  have l1: "1 \<le> opt_latest_connected (opts ?s1)" using h by (simp add: connected_device_opts)
  show "filter (\<lambda>e. id_mac e = Some mac)
          (latest_connected_list (record_connections [(t1, a), (t2, b)] s)) = [b]"
    using connected_device_one_entry[OF d1 _ _ l1, of b mac t2] h by simp
next
  assume h: "distinct (map id_mac (latest_connected_list s))
        \<and> id_mac a = Some mac \<and> id_mac b = Some mac \<and> mac \<noteq> []
        \<and> 1 \<le> opt_latest_connected (opts s)"
    and o: "\<forall>e\<in>set (latest_connected_list (record_connections [(t1, a)] s)).
                connected_device_time t2 e \<le> connected_device_time t2 b"
  show "sorted (map (connected_device_time t2)
               (latest_connected_list (record_connections [(t1, a), (t2, b)] s)))"
    using connected_device_sorted_in_order[of b mac "snd (connected_device t1 a s)" t2] h o
    by simp
qed

theorem same_mac_twice_one_entry_witness:
  "distinct (map id_mac (latest_connected_list
      (record_connections [(1, dev ''bb'' 1)] (new_ardevice (limit_options 5) ROUTER))))
   \<and> id_mac (dev ''aa'' 2) = Some ''aa'' \<and> id_mac (dev ''aa'' 3) = Some ''aa'' \<and> ''aa'' \<noteq> []
   \<and> 1 \<le> opt_latest_connected
         (opts (record_connections [(1, dev ''bb'' 1)] (new_ardevice (limit_options 5) ROUTER)))
   \<and> (\<forall>e \<in> set (latest_connected_list (record_connections [(2, dev ''aa'' 2)]
          (record_connections [(1, dev ''bb'' 1)] (new_ardevice (limit_options 5) ROUTER)))).
        connected_device_time 3 e \<le> connected_device_time 3 (dev ''aa'' 3)) = True
   \<and> distinct (map id_mac (latest_connected_list (snd (connected_device 2 (dev ''aa'' 2)
        (record_connections [(1, dev ''bb'' 1)] (new_ardevice (limit_options 5) ROUTER))))))
   \<and> filter (\<lambda>e. id_mac e = Some ''aa'')
       (latest_connected_list (record_connections [(2, dev ''aa'' 2), (3, dev ''aa'' 3)]
          (record_connections [(1, dev ''bb'' 1)] (new_ardevice (limit_options 5) ROUTER))))
       = [dev ''aa'' 3]
   \<and> sorted (map (connected_device_time 3)
       (latest_connected_list (record_connections [(2, dev ''aa'' 2), (3, dev ''aa'' 3)]
          (record_connections [(1, dev ''bb'' 1)] (new_ardevice (limit_options 5) ROUTER)))))"
proof -
  let ?s = "record_connections [(1, dev ''bb'' 1)] (new_ardevice (limit_options 5) ROUTER)"
  have l0: "latest_connected_list ?s = [dev ''bb'' 1]" by code_simp
  have l1: "latest_connected_list (record_connections [(2, dev ''aa'' 2)] ?s)
              = [dev ''bb'' 1, dev ''aa'' 2]"
    by code_simp
  have d: "distinct (map id_mac (latest_connected_list ?s))"
    unfolding l0 by (simp add: dev_def)
  have m: "id_mac (dev ''aa'' 2) = Some ''aa'' \<and> id_mac (dev ''aa'' 3) = Some ''aa'' \<and> ''aa'' \<noteq> []"
    by (simp add: dev_def)
  have b: "1 \<le> opt_latest_connected (opts ?s)"
    by (simp add: connected_device_opts new_ardevice_def limit_options_def)
  have o: "\<forall>e \<in> set (latest_connected_list (record_connections [(2, dev ''aa'' 2)] ?s)).
             connected_device_time 3 e \<le> connected_device_time 3 (dev ''aa'' 3)"
    unfolding l1 by (simp add: dev_def connected_device_time_def get_connected_def)
  note t = same_mac_twice_one_entry
             [of ?s 2 "dev ''aa'' 2" "dev ''aa'' 2" "''aa''" "dev ''aa'' 3" 2 3]
  have c1: "distinct (map id_mac (latest_connected_list
              (snd (connected_device 2 (dev ''aa'' 2) ?s))))"
    by (rule mp [OF conjunct1 [OF t] d])
  have h: "distinct (map id_mac (latest_connected_list ?s))
        \<and> id_mac (dev ''aa'' 2) = Some ''aa'' \<and> id_mac (dev ''aa'' 3) = Some ''aa'' \<and> ''aa'' \<noteq> []
        \<and> 1 \<le> opt_latest_connected (opts ?s)"
    using d m b by blast
  note t2 = mp [OF conjunct2 [OF t] h]
  have c2: "filter (\<lambda>e. id_mac e = Some ''aa'')
       (latest_connected_list (record_connections [(2, dev ''aa'' 2), (3, dev ''aa'' 3)] ?s))
       = [dev ''aa'' 3]"
    by (rule conjunct1 [OF t2])
  have c3: "sorted (map (connected_device_time 3)
       (latest_connected_list (record_connections [(2, dev ''aa'' 2), (3, dev ''aa'' 3)] ?s)))"
    by (rule mp [OF conjunct2 [OF t2] o])
  from o have o': "(\<forall>e \<in> set (latest_connected_list (record_connections [(2, dev ''aa'' 2)] ?s)).
             connected_device_time 3 e \<le> connected_device_time 3 (dev ''aa'' 3)) = True"
    by simp
  from d m b o' c1 c2 c3 show ?thesis by blast
qed

section \<open>What the callbacks and the loops of a pass leave alone\<close>

lemma frame_refl [simp]: "frame s s"
  by (simp add: frame_def)

lemma frame_trans: "frame s t \<Longrightarrow> frame t u \<Longrightarrow> frame s u"
  by (simp add: frame_def)

lemma frame_log_trace [simp]: "frame s (s\<lparr>trace := tr\<rparr>)"
  by (simp add: frame_def)

lemma frame_fire_event [simp]: "frame s (fire_event event args s)"
  by (simp add: frame_def fire_event_def)

lemma frame_connected_device [simp]: "frame s (snd (connected_device now ident s))"
  by (auto simp: frame_def connected_device_def Let_def
           split: option.splits prod.splits list.splits)

lemma frame_run_calls [simp]: "frame s (snd (run_calls now calls s))"
proof (induction now calls s rule: run_calls.induct)
  case (1 now s)
  show ?case by simp
next
  case (2 now event args cs s)
  have "frame s (fire_event event args s)" by simp
  from frame_trans[OF this 2] show ?case by simp
next
  case (3 now ident cs s)
  obtain e s' where c: "connected_device now ident s = (e, s')"
    by (cases "connected_device now ident s")
  have f: "frame s s'" using frame_connected_device[of s now ident] c by simp
  show ?case
  proof (cases e)
    case None
    from frame_trans[OF f "3.IH"[OF c[symmetric] None]] show ?thesis
      using c None by simp
  next
    case (Some x)
    then show ?thesis using c f by simp
  qed
qed

lemma frame_run_events [simp]: "frame s (run_events calls s)"
proof (induction calls s rule: run_events.induct)
  case (1 s)
  show ?case by simp
next
  case (2 event args cs s)
  from frame_trans[OF frame_fire_event 2] show ?case by simp
qed

lemma frame_notify_new [simp]: "frame s (notify_new cs s)"
proof (induction cs s rule: notify_new.induct)
  case (1 s)
  show ?case by simp
next
  case (2 c cs s)
  from frame_trans[OF frame_fire_event 2] show ?case by simp
qed

lemma frame_notify_new_nodes [simp]: "frame s (notify_new_nodes ev ns s)"
proof (induction ev ns s rule: notify_new_nodes.induct)
  case (1 ev s)
  show ?case by simp
next
  case (2 ev n ns s)
  from frame_trans[OF frame_fire_event 2] show ?case by simp
qed

lemma update_known_keys:
  "update_known env now ch cs work s = (e, known, work', s')
   \<Longrightarrow> map fst known = map fst cs \<and> frame s s'"
proof (induction env now ch cs work s arbitrary: e known work' s' rule: update_known.induct)
  case (1 env now ch work s)
  then show ?case by simp
next
  case (2 env now ch mac c rest work s)
  obtain c' calls where u: "client_update env (map_of work mac) (Some ch) c = (c', calls)"
    by (cases "client_update env (map_of work mac) (Some ch) c")
  obtain e1 s1 where r: "run_calls now calls s = (e1, s1)"
    by (cases "run_calls now calls s")
  have f1: "frame s s1" using frame_run_calls[of s now calls] r by simp
  show ?case
  proof (cases e1)
    case (Some x)
    with "2.prems" u r f1 show ?thesis by auto
  next
    case None
    obtain e2 k2 w2 s2 where k:
      "update_known env now ch rest (AList.delete mac work) s1 = (e2, k2, w2, s2)"
      by (cases "update_known env now ch rest (AList.delete mac work) s1") auto
    from "2.IH"[OF u[symmetric] r[symmetric] None k]
    have "map fst k2 = map fst rest" "frame s1 s2" by simp_all
    with "2.prems" u r None k f1 show ?thesis by (auto intro: frame_trans)
  qed
qed


lemma frame_sym: "frame s t \<Longrightarrow> frame t s"
  by (simp add: frame_def)

lemma frame_log [simp]: "frame s (log e s)"
  by (simp add: log_def)

lemma add_new_clients:
  "add_new env now work new s = (e, new', s')
   \<Longrightarrow> frame (s\<lparr>clients := clients s'\<rparr>) s' \<and> fst ` set (clients s) \<subseteq> fst ` set (clients s')"
proof (induction env now work new s arbitrary: e new' s' rule: add_new.induct)
  case (1 env now new s)
  then show ?case by (auto simp: frame_def)
next
  case (2 env now mac info work new s)
  obtain c calls where u: "client_update env (Some info) None (new_client env mac) = (c, calls)"
    by (cases "client_update env (Some info) None (new_client env mac)")
  obtain e1 s1 where r: "run_calls now calls s = (e1, s1)"
    by (cases "run_calls now calls s")
  have f1: "frame s s1" using frame_run_calls[of s now calls] r by simp
  show ?case
  proof (cases e1)
    case (Some x)
    with "2.prems" u r have "s' = s1" by simp
    with f1 show ?thesis by (auto simp: frame_def)
  next
    case None
    let ?s2 = "s1\<lparr>clients := AList.update mac c (clients s1)\<rparr>"
    have a: "add_new env now work (new @ [c]) ?s2 = (e, new', s')"
      using "2.prems" u r None by simp
    from "2.IH"[OF u[symmetric] r[symmetric] None a]
    have ih: "frame (?s2\<lparr>clients := clients s'\<rparr>) s'"
      "fst ` set (clients ?s2) \<subseteq> fst ` set (clients s')" by simp_all
    have "fst ` set (clients s) \<subseteq> fst ` set (clients ?s2)"
      using f1 by (auto simp: frame_def dom_update)
    with ih(2) have k: "fst ` set (clients s) \<subseteq> fst ` set (clients s')" by blast
    from ih(1) f1 have "frame (s\<lparr>clients := clients s'\<rparr>) s'" by (simp add: frame_def)
    with k show ?thesis by simp
  qed
qed

lemma unpolled_aimesh_fields [simp]:
  "opts (unpolled_aimesh s) = opts s" "dev_mode (unpolled_aimesh s) = dev_mode s"
  "aimesh (unpolled_aimesh s) = aimesh s" "clients (unpolled_aimesh s) = clients s"
  "clients_number (unpolled_aimesh s) = clients_number s"
  "clients_list (unpolled_aimesh s) = clients_list s"
  "aimesh_number (unpolled_aimesh s) = aimesh_number s"
  "aimesh_list (unpolled_aimesh s) = aimesh_list s"
  "connect_error (unpolled_aimesh s) = connect_error s"
  "sensor_coordinator (unpolled_aimesh s) = sensor_coordinator s"
  "latest_connected (unpolled_aimesh s) = latest_connected s"
  "latest_connected_list (unpolled_aimesh s) = latest_connected_list s"
  by (auto simp: unpolled_aimesh_def log_def split: option.splits prod.splits bool.splits)

lemma unpolled_devices_fields [simp]:
  "opts (unpolled_devices s) = opts s" "dev_mode (unpolled_devices s) = dev_mode s"
  "aimesh (unpolled_devices s) = aimesh s" "clients (unpolled_devices s) = clients s"
  "clients_number (unpolled_devices s) = clients_number s"
  "clients_list (unpolled_devices s) = clients_list s"
  "aimesh_number (unpolled_devices s) = aimesh_number s"
  "aimesh_list (unpolled_devices s) = aimesh_list s"
  "connect_error (unpolled_devices s) = connect_error s"
  "sensor_coordinator (unpolled_devices s) = sensor_coordinator s"
  "latest_connected (unpolled_devices s) = latest_connected s"
  "latest_connected_list (unpolled_devices s) = latest_connected_list s"
  by (auto simp: unpolled_devices_def log_def split: option.splits prod.splits bool.splits)

lemma update_unpolled_sensors_fields [simp]:
  "opts (update_unpolled_sensors s) = opts s" "dev_mode (update_unpolled_sensors s) = dev_mode s"
  "aimesh (update_unpolled_sensors s) = aimesh s" "clients (update_unpolled_sensors s) = clients s"
  "clients_number (update_unpolled_sensors s) = clients_number s"
  "clients_list (update_unpolled_sensors s) = clients_list s"
  "aimesh_number (update_unpolled_sensors s) = aimesh_number s"
  "aimesh_list (update_unpolled_sensors s) = aimesh_list s"
  "connect_error (update_unpolled_sensors s) = connect_error s"
  "sensor_coordinator (update_unpolled_sensors s) = sensor_coordinator s"
  "latest_connected (update_unpolled_sensors s) = latest_connected s"
  "latest_connected_list (update_unpolled_sensors s) = latest_connected_list s"
  by (simp_all add: update_unpolled_sensors_def)

lemma count_clients_filter:
  "count_clients cs (n, lst) =
     (n + length (filter state (map snd cs)), lst @ map identity (filter state (map snd cs)))"
  by (induction cs "(n, lst)" arbitrary: n lst rule: count_clients.induct) auto

lemma count_nodes_all:
  "count_nodes ns (k, lst) =
     (k + length (filter (\<lambda>n. n_connected (node_identity n)) (map snd ns)),
      lst @ map (\<lambda>n. node_identity n) (map snd ns))"
  by (induction ns "(k, lst)" arbitrary: k lst rule: count_nodes.induct) auto

lemma reconcile_clients_result:
  assumes "reconcile_clients env now api s = (e, s')"
  shows "fst ` set (clients s) \<subseteq> fst ` set (clients s') \<and> opts s' = opts s
        \<and> aimesh s' = aimesh s \<and> connect_error s' = connect_error s
        \<and> (e = None \<longrightarrow>
           clients_number s' = length (filter state (map snd (clients s')))
           \<and> clients_list s' = map identity (filter state (map snd (clients s'))))"
proof -
  obtain e1 known work s1 where k:
    "update_known env now (opt_consider_home (opts s)) (clients s)
       (formatted (format_mac env) api) s = (e1, known, work, s1)"
    by (cases "update_known env now (opt_consider_home (opts s)) (clients s)
       (formatted (format_mac env) api) s") auto
  from update_known_keys[OF k] have kk: "map fst known = map fst (clients s)" and f1: "frame s s1"
    by simp_all
  have keys1: "fst ` set known = fst ` set (clients s)"
    using kk by (metis set_map)
  let ?s1 = "s1\<lparr>clients := known\<rparr>"
  obtain e2 new s2 where a: "add_new env now work [] ?s1 = (e2, new, s2)"
    by (cases "add_new env now work [] ?s1") auto
  from add_new_clients[OF a] have f2: "frame (?s1\<lparr>clients := clients s2\<rparr>) s2"
    and keys2: "fst ` set known \<subseteq> fst ` set (clients s2)" by simp_all
  show ?thesis
  proof (cases e1)
    case (Some x)
    with assms k have "s' = ?s1" "e = Some x" by (simp_all add: reconcile_clients_def)
    with f1 keys1 show ?thesis by (simp add: frame_def)
  next
    case None
    note e1 = None
    show ?thesis
    proof (cases e2)
      case (Some x)
      with assms k a e1 have "s' = s2" "e = Some x" by (simp_all add: reconcile_clients_def)
      with f1 f2 keys1 keys2 show ?thesis by (auto simp: frame_def)
    next
      case None
      let ?s3 = "notify_new new s2"
      have f3: "frame s2 ?s3" by simp
      obtain number lst where c: "count_clients (clients ?s3) (0, []) = (number, lst)"
        by (cases "count_clients (clients ?s3) (0, [])")
      have s': "s' = update_unpolled_sensors
                 ((if work \<noteq> [] then log (Dispatch SignalDeviceNew) else (\<lambda>x. x))
                    (log (Dispatch SignalDeviceUpdate)
                       (?s3\<lparr>clients_number := number, clients_list := lst\<rparr>)))"
        using assms k a e1 None c by (auto simp: reconcile_clients_def Let_def)
      have cl: "clients s' = clients s2" using f3 by (simp add: s' frame_def log_def)
      have nl: "clients_number s' = number" "clients_list s' = lst"
        by (simp_all add: s' log_def)
      have o: "opts s' = opts s" "aimesh s' = aimesh s" "connect_error s' = connect_error s"
        using f1 f2 f3 by (simp_all add: s' log_def frame_def)
      from c have "number = length (filter state (map snd (clients s2)))"
        "lst = map identity (filter state (map snd (clients s2)))"
        using f3 by (simp_all add: count_clients_filter frame_def)
      with cl nl o keys1 keys2 show ?thesis by simp
    qed
  qed
qed

section \<open>Passes that return, and what they keep\<close>

lemma connected_device_returns:
  assumes "1 \<le> opt_latest_connected (opts s)"
  shows "fst (connected_device now ident s) = None"
proof (cases "\<exists>mac. id_mac ident = Some mac \<and> mac \<noteq> []")
  case True
  then show ?thesis using assms by (auto simp: connected_device_pos)
next
  case False
  then have "id_mac ident = None \<or> id_mac ident = Some []" by (cases "id_mac ident") auto
  then show ?thesis by (simp add: connected_device_no_mac)
qed

lemma run_calls_returns:
  "1 \<le> opt_latest_connected (opts s) \<Longrightarrow> fst (run_calls now calls s) = None"
proof (induction now calls s rule: run_calls.induct)
  case (1 now s)
  show ?case by simp
next
  case (2 now event args cs s)
  have "opts (fire_event event args s) = opts s"
    using frame_fire_event[of s event args] by (simp add: frame_def)
  with 2 show ?case by simp
next
  case (3 now ident cs s)
  obtain e s' where c: "connected_device now ident s = (e, s')"
    by (cases "connected_device now ident s")
  have n: "e = None" using connected_device_returns[OF "3.prems", of now ident] c by simp
  have "opts s' = opts s" using frame_connected_device[of s now ident] c by (simp add: frame_def)
  with "3.IH"[OF c[symmetric] n] "3.prems" c n show ?case by simp
qed

lemma update_known_returns:
  "1 \<le> opt_latest_connected (opts s) \<Longrightarrow> fst (update_known env now ch cs work s) = None"
proof (induction env now ch cs work s rule: update_known.induct)
  case (1 env now ch work s)
  show ?case by simp
next
  case (2 env now ch mac c rest work s)
  obtain c' calls where u: "client_update env (map_of work mac) (Some ch) c = (c', calls)"
    by (cases "client_update env (map_of work mac) (Some ch) c")
  obtain e1 s1 where r: "run_calls now calls s = (e1, s1)"
    by (cases "run_calls now calls s")
  have n: "e1 = None" using run_calls_returns[OF "2.prems", of now calls] r by simp
  have "opts s1 = opts s" using frame_run_calls[of s now calls] r by (simp add: frame_def)
  with "2.IH"[OF u[symmetric] r[symmetric] n] "2.prems"
  have "fst (update_known env now ch rest (AList.delete mac work) s1) = None" by simp
  with u r n show ?case
    by (cases "update_known env now ch rest (AList.delete mac work) s1") auto
qed

lemma add_new_returns:
  "1 \<le> opt_latest_connected (opts s) \<Longrightarrow> fst (add_new env now work new s) = None"
proof (induction env now work new s rule: add_new.induct)
  case (1 env now new s)
  show ?case by simp
next
  case (2 env now mac info work new s)
  obtain c calls where u: "client_update env (Some info) None (new_client env mac) = (c, calls)"
    by (cases "client_update env (Some info) None (new_client env mac)")
  obtain e1 s1 where r: "run_calls now calls s = (e1, s1)"
    by (cases "run_calls now calls s")
  have n: "e1 = None" using run_calls_returns[OF "2.prems", of now calls] r by simp
  have "opts s1 = opts s" using frame_run_calls[of s now calls] r by (simp add: frame_def)
  with "2.IH"[OF u[symmetric] r[symmetric] n] "2.prems" u r n show ?case by simp
qed

lemma reconcile_clients_returns:
  assumes "1 \<le> opt_latest_connected (opts s)"
  shows "fst (reconcile_clients env now api s) = None"
proof -
  obtain e1 known work s1 where k:
    "update_known env now (opt_consider_home (opts s)) (clients s)
       (formatted (format_mac env) api) s = (e1, known, work, s1)"
    by (cases "update_known env now (opt_consider_home (opts s)) (clients s)
       (formatted (format_mac env) api) s") auto
  have "fst (update_known env now (opt_consider_home (opts s)) (clients s)
               (formatted (format_mac env) api) s) = None"
    by (rule update_known_returns[OF assms])
  with k have n1: "e1 = None" by simp
  have o: "opts s1 = opts s" using update_known_keys[OF k] by (simp add: frame_def)
  obtain e2 new s2 where a: "add_new env now work [] (s1\<lparr>clients := known\<rparr>) = (e2, new, s2)"
    by (cases "add_new env now work [] (s1\<lparr>clients := known\<rparr>)") auto
  have n2: "e2 = None"
    using add_new_returns[of "s1\<lparr>clients := known\<rparr>" env now work "[]"] a o assms by simp
  show ?thesis using k a n1 n2 by (simp add: reconcile_clients_def Let_def split: prod.splits)
qed

text \<open>The state in which \<^verbatim>\<open>update_devices\<close> starts to reconcile a fetched snapshot.\<close>

lemma update_devices_snapshot:
  "\<exists>api' s0. update_devices env now (Snapshot api) s = reconcile_clients env now api' s0
     \<and> clients s0 = clients s \<and> opts s0 = opts s \<and> aimesh s0 = aimesh s
     \<and> connect_error s0 = False"
proof -
  let ?s2 = "log (LogDebug ''Updating AsusRouter device list'')
               (log (LogDebug (if opt_track_devices (opts s) = False
                               then ''Device tracking is disabled''
                               else ''Device tracking is enabled'')) s)"
  let ?api = "if dev_mode ?s2 = MEDIA_BRIDGE
              then filter (\<lambda>(mac, c). ac_connection c \<noteq> None \<and> ac_connection c = Some WIRED) api
              else api"
  let ?s3 = "if connect_error ?s2
             then log (LogInfo ''Reconnected'') (?s2\<lparr>connect_error := False\<rparr>) else ?s2"
  have "update_devices env now (Snapshot api) s = reconcile_clients env now ?api ?s3"
    by (simp add: update_devices_def fetch_and_reconcile_def Let_def)
  moreover have "clients ?s3 = clients s \<and> opts ?s3 = opts s \<and> aimesh ?s3 = aimesh s
     \<and> connect_error ?s3 = False"
    by (simp add: log_def)
  ultimately show ?thesis by blast
qed

lemma update_devices_keys:
  "fst ` set (clients s) \<subseteq> fst ` set (clients (snd (update_devices env now fetch s)))"
proof (cases fetch)
  case (UpdateFailed ex)
  then show ?thesis by (simp add: update_devices_def fetch_and_reconcile_def Let_def log_def)
next
  case (Snapshot api)
  obtain api' s0 where u: "update_devices env now (Snapshot api) s = reconcile_clients env now api' s0"
    and c: "clients s0 = clients s"
    using update_devices_snapshot by blast
  obtain e s' where r: "reconcile_clients env now api' s0 = (e, s')"
    by (cases "reconcile_clients env now api' s0")
  from reconcile_clients_result[OF r] c show ?thesis using Snapshot u r by simp
qed

lemma update_known_nodes_keys:
  "update_known_nodes env ns work s = (known, work', s')
   \<Longrightarrow> map fst known = map fst ns \<and> frame s s'"
proof (induction env ns work s arbitrary: known work' s' rule: update_known_nodes.induct)
  case (1 env work s)
  then show ?case by simp
next
  case (2 env mac n rest work s)
  obtain n' calls where u: "node_update env (map_of work mac) n = (n', calls)"
    by (cases "node_update env (map_of work mac) n")
  obtain k2 w2 s2 where k:
    "update_known_nodes env rest (AList.delete mac work) (run_events calls s) = (k2, w2, s2)"
    by (cases "update_known_nodes env rest (AList.delete mac work) (run_events calls s)") auto
  from "2.IH"[OF u[symmetric] k]
  have "map fst k2 = map fst rest" "frame (run_events calls s) s2" by simp_all
  moreover from this(2) have "frame s s2" by (rule frame_trans[OF frame_run_events])
  ultimately show ?case using "2.prems" u k by auto
qed

lemma add_new_nodes_frame:
  "add_new_nodes env work new s = (new', s')
   \<Longrightarrow> frame (s\<lparr>aimesh := aimesh s'\<rparr>) s' \<and> fst ` set (aimesh s) \<subseteq> fst ` set (aimesh s')"
proof (induction env work new s arbitrary: new' s' rule: add_new_nodes.induct)
  case (1 env new s)
  then show ?case by (auto simp: frame_def)
next
  case (2 env mac info work new s)
  obtain n calls where u: "node_update env (Some info) (new_node env mac) = (n, calls)"
    by (cases "node_update env (Some info) (new_node env mac)")
  let ?s1 = "run_events calls s"
  let ?s2 = "?s1\<lparr>aimesh := AList.update mac n (aimesh ?s1)\<rparr>"
  have f1: "frame s ?s1" by simp
  have a: "add_new_nodes env work (new @ [n]) ?s2 = (new', s')"
    using "2.prems" u by simp
  from "2.IH"[OF u[symmetric] a]
  have ih: "frame (?s2\<lparr>aimesh := aimesh s'\<rparr>) s'"
    "fst ` set (aimesh ?s2) \<subseteq> fst ` set (aimesh s')" by simp_all
  have "fst ` set (aimesh s) \<subseteq> fst ` set (aimesh ?s2)"
    using f1 by (auto simp: frame_def dom_update)
  with ih(2) have k: "fst ` set (aimesh s) \<subseteq> fst ` set (aimesh s')" by blast
  from ih(1) f1 have "frame (s\<lparr>aimesh := aimesh s'\<rparr>) s'" by (simp add: frame_def)
  with k show ?case by simp
qed

lemma update_nodes_result:
  "clients (update_nodes env ev fetch s) = clients s"
  "opts (update_nodes env ev fetch s) = opts s"
  "connect_error (update_nodes env ev (Snapshot api) s) = connect_error s"
  "aimesh_number (update_nodes env ev (Snapshot api) s) =
     length (filter (\<lambda>n. n_connected (node_identity n))
               (map snd (aimesh (update_nodes env ev (Snapshot api) s))))"
  "aimesh_list (update_nodes env ev (Snapshot api) s) =
     map (\<lambda>n. node_identity n) (map snd (aimesh (update_nodes env ev (Snapshot api) s)))"
proof -
  let ?s1 = "log (LogDebug ''Updating AiMesh status'') s"
  have f0: "frame s ?s1" by simp
  have main: "\<And>api. clients (update_nodes env ev (Snapshot api) s) = clients s
     \<and> opts (update_nodes env ev (Snapshot api) s) = opts s
     \<and> connect_error (update_nodes env ev (Snapshot api) s) = connect_error s
     \<and> aimesh_number (update_nodes env ev (Snapshot api) s) =
        length (filter (\<lambda>n. n_connected (node_identity n))
               (map snd (aimesh (update_nodes env ev (Snapshot api) s))))
     \<and> aimesh_list (update_nodes env ev (Snapshot api) s) =
        map (\<lambda>n. node_identity n) (map snd (aimesh (update_nodes env ev (Snapshot api) s)))"
  proof -
    fix api
    obtain known work s2 where k:
      "update_known_nodes env (aimesh ?s1) (formatted (format_mac env) api) ?s1 = (known, work, s2)"
      by (cases "update_known_nodes env (aimesh ?s1) (formatted (format_mac env) api) ?s1") auto
    from update_known_nodes_keys[OF k] have f2: "frame ?s1 s2" by simp
    obtain new s3 where a: "add_new_nodes env work [] (s2\<lparr>aimesh := known\<rparr>) = (new, s3)"
      by (cases "add_new_nodes env work [] (s2\<lparr>aimesh := known\<rparr>)")
    from add_new_nodes_frame[OF a] have f3: "frame (s2\<lparr>aimesh := aimesh s3\<rparr>) s3" by simp
    let ?s4 = "notify_new_nodes ev new s3"
    have f4: "frame s3 ?s4" by simp
    obtain number lst where c: "count_nodes (aimesh ?s4) (0, []) = (number, lst)"
      by (cases "count_nodes (aimesh ?s4) (0, [])")
    have r: "update_nodes env ev (Snapshot api) s =
               (if work \<noteq> [] then log (Dispatch SignalAimeshNew) else (\<lambda>x. x))
                 (log (Dispatch SignalAimeshUpdate)
                    (?s4\<lparr>aimesh_number := number, aimesh_list := lst\<rparr>))"
      using k a c by (auto simp: update_nodes_def Let_def)
    from c have nl: "number = length (filter (\<lambda>n. n_connected (node_identity n))
               (map snd (aimesh ?s4)))" "lst = map (\<lambda>n. node_identity n) (map snd (aimesh ?s4))"
      by (simp_all add: count_nodes_all)
    show "clients (update_nodes env ev (Snapshot api) s) = clients s
     \<and> opts (update_nodes env ev (Snapshot api) s) = opts s
     \<and> connect_error (update_nodes env ev (Snapshot api) s) = connect_error s
     \<and> aimesh_number (update_nodes env ev (Snapshot api) s) =
        length (filter (\<lambda>n. n_connected (node_identity n))
               (map snd (aimesh (update_nodes env ev (Snapshot api) s))))
     \<and> aimesh_list (update_nodes env ev (Snapshot api) s) =
        map (\<lambda>n. node_identity n) (map snd (aimesh (update_nodes env ev (Snapshot api) s)))"
      using f0 f2 f3 f4 nl by (simp add: r log_def frame_def)
  qed
  show "connect_error (update_nodes env ev (Snapshot api) s) = connect_error s"
   "aimesh_number (update_nodes env ev (Snapshot api) s) =
     length (filter (\<lambda>n. n_connected (node_identity n))
               (map snd (aimesh (update_nodes env ev (Snapshot api) s))))"
   "aimesh_list (update_nodes env ev (Snapshot api) s) =
     map (\<lambda>n. node_identity n) (map snd (aimesh (update_nodes env ev (Snapshot api) s)))"
    using main[of api] by simp_all
  show "clients (update_nodes env ev fetch s) = clients s"
    using main by (cases fetch) (simp_all add: update_nodes_def Let_def log_def)
  show "opts (update_nodes env ev fetch s) = opts s"
    using main by (cases fetch) (simp_all add: update_nodes_def Let_def log_def)
qed

section \<open>The claims about a pass\<close>


text \<open>
  Claim C3. When the fetch raises \<^verbatim>\<open>UpdateFailed\<close>, the client pass and the node pass
  return at once: the state after the pass is the state before it with the error flag
  set and the debug lines (and, if the flag was clear, one error line) added to the log.
  The client map, the node map, the history, the aggregates and the values the sensor
  handler holds are as they were; no signal is sent and no refresh is asked for.
\<close>

theorem fetch_failure_leaves_state:
  "update_devices env now (UpdateFailed ex) s =
     (None, s\<lparr>connect_error := True,
              trace := trace s
                @ [LogDebug (if opt_track_devices (opts s) = False
                             then ''Device tracking is disabled''
                             else ''Device tracking is enabled''),
                   LogDebug ''Updating AsusRouter device list'']
                @ (if connect_error s then []
                   else [LogError ''Error connecting for device update''])\<rparr>)
   \<and> update_nodes env ev (UpdateFailed ex) s =
       s\<lparr>connect_error := True,
         trace := trace s @ [LogDebug ''Updating AiMesh status'']
                @ (if connect_error s then []
                   else [LogError ''Error connecting for device update''])\<rparr>"
  by (cases s) (simp add: update_devices_def fetch_and_reconcile_def update_nodes_def Let_def log_def)

text \<open>
  Claim C4, as stated, fails for the node list: after a node pass over a router that
  tracks one node whose link is down, the list holds that node's identity, while no
  record has the connected flag set.
\<close>

theorem node_list_holds_disconnected_counterexample:
  "aimesh_list (update_nodes sample_env ''node_connected'' (Snapshot []) stale_node_router)
     = [\<lparr>n_connected = False, n_attrs = []\<rparr>]
   \<and> map (\<lambda>n. node_identity n)
       (filter (\<lambda>n. n_connected (node_identity n))
          (map snd (aimesh (update_nodes sample_env ''node_connected'' (Snapshot [])
                              stale_node_router)))) = []"
  by code_simp

text \<open>
  Claim C4, amended. A client pass that has fetched a snapshot returns whenever the bound
  of the history is at least 1, and when it returns the client count is the number of
  records whose connected flag is set and the client list holds, in the order of the
  map, the identities of just these records. After a node pass that has fetched a
  snapshot the node count is the number of records whose identity is connected, and the
  node list holds, in the order of the map, the identities of all records.
\<close>

theorem aggregates_recomputed:
  "(1 \<le> opt_latest_connected (opts s) \<longrightarrow>
      fst (update_devices env now (Snapshot api) s) = None)
   \<and> (fst (update_devices env now (Snapshot api) s) = None \<longrightarrow>
        clients_number (snd (update_devices env now (Snapshot api) s)) =
          length (filter state (map snd (clients (snd (update_devices env now (Snapshot api) s)))))
        \<and> clients_list (snd (update_devices env now (Snapshot api) s)) =
            map identity
              (filter state (map snd (clients (snd (update_devices env now (Snapshot api) s))))))
   \<and> aimesh_number (update_nodes env ev (Snapshot napi) s) =
       length (filter (\<lambda>n. n_connected (node_identity n))
                 (map snd (aimesh (update_nodes env ev (Snapshot napi) s))))
   \<and> aimesh_list (update_nodes env ev (Snapshot napi) s) =
       map (\<lambda>n. node_identity n) (map snd (aimesh (update_nodes env ev (Snapshot napi) s)))"
proof -
  obtain api' s0 where u: "update_devices env now (Snapshot api) s = reconcile_clients env now api' s0"
    and o: "opts s0 = opts s"
    using update_devices_snapshot by blast
  obtain e s' where r: "reconcile_clients env now api' s0 = (e, s')"
    by (cases "reconcile_clients env now api' s0")
  have a: "1 \<le> opt_latest_connected (opts s) \<longrightarrow>
      fst (update_devices env now (Snapshot api) s) = None"
    using reconcile_clients_returns[of s0 env now api'] o u by simp
  have b: "fst (update_devices env now (Snapshot api) s) = None \<longrightarrow>
        clients_number (snd (update_devices env now (Snapshot api) s)) =
          length (filter state (map snd (clients (snd (update_devices env now (Snapshot api) s)))))
        \<and> clients_list (snd (update_devices env now (Snapshot api) s)) =
            map identity
              (filter state (map snd (clients (snd (update_devices env now (Snapshot api) s)))))"
    using reconcile_clients_result[OF r] u r by simp
  from a b update_nodes_result(4,5)[of env ev napi s] show ?thesis by blast
qed

text \<open>
  Claim C8. A node pass whose fetch fails sets the error flag and logs the error; the
  node pass after it, whose fetch succeeds, leaves the flag set and logs no recovery
  notice. A client pass in its place clears the flag.
\<close>

theorem node_recovery_not_logged:
  "connect_error (update_nodes sample_env ''node_connected'' (UpdateFailed ''timeout'')
                    (sample_router True))
   \<and> connect_error
       (update_nodes sample_env ''node_connected'' (Snapshot [(''n1'', sample_node)])
          (update_nodes sample_env ''node_connected'' (UpdateFailed ''timeout'')
             (sample_router True)))
   \<and> trace
       (update_nodes sample_env ''node_connected'' (Snapshot [(''n1'', sample_node)])
          (update_nodes sample_env ''node_connected'' (UpdateFailed ''timeout'')
             (sample_router True)))
     = [LogDebug ''Updating AiMesh status'', LogError ''Error connecting for device update'',
        LogDebug ''Updating AiMesh status'', Dispatch SignalAimeshUpdate,
        Dispatch SignalAimeshNew]
   \<and> \<not> connect_error
       (snd (update_devices sample_env 0 (Snapshot [])
          (update_nodes sample_env ''node_connected'' (UpdateFailed ''timeout'')
             (sample_router True))))"
  by code_simp

lemma pop_trackers_one:
  "mac \<notin> fst ` set (clients (snd (pop_trackers [Registered (Some mac)] s)))"
  using delete_notin_dom[of mac "clients s"] by (auto simp: Let_def log_def)

text \<open>
  Claim C9. A MAC that is in the client map before a client pass, a node pass, a full
  tick or a \<^verbatim>\<open>connected_device\<close> call is in it afterwards, whatever the fetch returned
  and whether the pass returned or raised. \<^verbatim>\<open>remove_trackers\<close> does remove a record:
  called for a registered entity with that MAC, it leaves a map without the MAC when the
  fetch of the pass it ends with fails.
\<close>

theorem reconciliation_keeps_clients:
  "(mac \<in> fst ` set (clients s) \<longrightarrow>
      mac \<in> fst ` set (clients (snd (update_devices env now fetch s)))
      \<and> mac \<in> fst ` set (clients (update_nodes env ev nfetch s))
      \<and> mac \<in> fst ` set (clients (snd (update_all env ev now fetch nfetch s)))
      \<and> mac \<in> fst ` set (clients (snd (connected_device now ident s))))
   \<and> mac \<notin> fst ` set (clients (snd (remove_trackers env now
                (Some (Some [Registered (Some mac)])) (UpdateFailed ex) s)))"
proof (intro conjI impI)
  assume m: "mac \<in> fst ` set (clients s)"
  show d: "mac \<in> fst ` set (clients (snd (update_devices env now fetch s)))"
    using m update_devices_keys by blast
  show "mac \<in> fst ` set (clients (update_nodes env ev nfetch s))"
    using m by (simp add: update_nodes_result)
  show "mac \<in> fst ` set (clients (snd (update_all env ev now fetch nfetch s)))"
    using m d by (auto simp: update_all_def update_nodes_result split: prod.splits option.splits)
  show "mac \<in> fst ` set (clients (snd (connected_device now ident s)))"
    using m frame_connected_device[of s now ident] by (simp add: frame_def)
next
  have "clients (snd (remove_trackers env now (Some (Some [Registered (Some mac)]))
                   (UpdateFailed ex) s))
        = clients (snd (pop_trackers [Registered (Some mac)]
                     (log (LogDebug ''Removing trackers'') s)))"
    by (simp add: remove_trackers_def Let_def update_devices_def fetch_and_reconcile_def log_def split: prod.splits)
  then show "mac \<notin> fst ` set (clients (snd (remove_trackers env now
                (Some (Some [Registered (Some mac)])) (UpdateFailed ex) s)))"
    using pop_trackers_one by simp
qed


theorem aggregates_recomputed_witness:
  "1 \<le> opt_latest_connected (opts (sample_router True))
   \<and> fst (update_devices sample_env 0 (Snapshot [(''aa'', sample_client)]) (sample_router True))
       = None
   \<and> clients_number
       (snd (update_devices sample_env 0 (Snapshot [(''aa'', sample_client)]) (sample_router True)))
       = length (filter state (map snd (clients
           (snd (update_devices sample_env 0 (Snapshot [(''aa'', sample_client)])
                  (sample_router True))))))
   \<and> clients_number
       (snd (update_devices sample_env 0 (Snapshot [(''aa'', sample_client)]) (sample_router True)))
       = 1"
proof -
  let ?r = "update_devices sample_env 0 (Snapshot [(''aa'', sample_client)]) (sample_router True)"
  note t = aggregates_recomputed
             [of "sample_router True" sample_env 0 "[(''aa'', sample_client)]" "''ev''" "[]"]
  have h: "1 \<le> opt_latest_connected (opts (sample_router True))"
    by (simp add: sample_router_def new_ardevice_def limit_options_def)
  have n: "fst ?r = None" by (rule mp [OF conjunct1 [OF t] h])
  have c: "clients_number (snd ?r) = length (filter state (map snd (clients (snd ?r))))"
    by (rule conjunct1 [OF mp [OF conjunct1 [OF conjunct2 [OF t]] n]])
  have v: "clients_number (snd ?r) = 1" by code_simp
  from h n c v show ?thesis by blast
qed

theorem reconciliation_keeps_clients_witness:
  "''aa'' \<in> fst ` set (clients
      (snd (update_devices sample_env 0 (Snapshot [(''aa'', sample_client)]) (sample_router True))))
   \<and> ''aa'' \<in> fst ` set (clients (snd (update_devices sample_env 1 (Snapshot [])
        (snd (update_devices sample_env 0 (Snapshot [(''aa'', sample_client)])
                (sample_router True))))))"
proof -
  let ?s = "snd (update_devices sample_env 0 (Snapshot [(''aa'', sample_client)])
                   (sample_router True))"
  have c: "clients ?s =
     [(''aa'', \<lparr>state = True,
               identity = \<lparr>id_mac = Some ''aa'', id_connected = None, id_attrs = []\<rparr>\<rparr>)]"
    by code_simp
  have h: "''aa'' \<in> fst ` set (clients ?s)" unfolding c by simp
  note t = reconciliation_keeps_clients
             [of "''aa''" ?s sample_env 1 "Snapshot []" "''ev''" "Snapshot []"]
  have "''aa'' \<in> fst ` set (clients (snd (update_devices sample_env 1 (Snapshot []) ?s)))"
    by (rule conjunct1 [OF mp [OF conjunct1 [OF t] h]])
  with h show ?thesis by blast
qed

section \<open>A pass reads the tracking option once and only adds to the trace\<close>

lemma retag_fields [simp]:
  "dev_mode (retag pre b s) = dev_mode s" "aimesh (retag pre b s) = aimesh s"
  "clients (retag pre b s) = clients s" "clients_number (retag pre b s) = clients_number s"
  "clients_list (retag pre b s) = clients_list s"
  "aimesh_number (retag pre b s) = aimesh_number s"
  "aimesh_list (retag pre b s) = aimesh_list s"
  "latest_connected (retag pre b s) = latest_connected s"
  "latest_connected_list (retag pre b s) = latest_connected_list s"
  "connect_error (retag pre b s) = connect_error s"
  "sensor_handler (retag pre b s) = sensor_handler s"
  "sensor_coordinator (retag pre b s) = sensor_coordinator s"
  "trace (retag pre b s) = pre @ trace s"
  "opt_latest_connected (opts (retag pre b s)) = opt_latest_connected (opts s)"
  "opt_consider_home (opts (retag pre b s)) = opt_consider_home (opts s)"
  "opt_events (opts (retag pre b s)) = opt_events (opts s)"
  "opt_track_devices (opts (retag pre b s)) = b"
  by (simp_all add: retag_def)

lemma retag_updates [simp]:
  "(retag pre b s)\<lparr>clients := c\<rparr> = retag pre b (s\<lparr>clients := c\<rparr>)"
  "(retag pre b s)\<lparr>aimesh := a\<rparr> = retag pre b (s\<lparr>aimesh := a\<rparr>)"
  "(retag pre b s)\<lparr>clients_number := n\<rparr> = retag pre b (s\<lparr>clients_number := n\<rparr>)"
  "(retag pre b s)\<lparr>clients_list := l\<rparr> = retag pre b (s\<lparr>clients_list := l\<rparr>)"
  "(retag pre b s)\<lparr>aimesh_number := n\<rparr> = retag pre b (s\<lparr>aimesh_number := n\<rparr>)"
  "(retag pre b s)\<lparr>aimesh_list := nl\<rparr> = retag pre b (s\<lparr>aimesh_list := nl\<rparr>)"
  "(retag pre b s)\<lparr>latest_connected := v\<rparr> = retag pre b (s\<lparr>latest_connected := v\<rparr>)"
  "(retag pre b s)\<lparr>latest_connected_list := il\<rparr> = retag pre b (s\<lparr>latest_connected_list := il\<rparr>)"
  "(retag pre b s)\<lparr>connect_error := ce\<rparr> = retag pre b (s\<lparr>connect_error := ce\<rparr>)"
  "(retag pre b s)\<lparr>sensor_handler := h\<rparr> = retag pre b (s\<lparr>sensor_handler := h\<rparr>)"
  by (simp_all add: retag_def)

lemma log_retag [simp]: "log e (retag pre b s) = retag pre b (log e s)"
  by (simp add: log_def retag_def)

lemma fire_event_retag [simp]:
  "fire_event event args (retag pre b s) = retag pre b (fire_event event args s)"
  by (simp add: fire_event_def retag_def)

lemma connected_device_retag:
  "connected_device now ident (retag pre b s) =
     (fst (connected_device now ident s), retag pre b (snd (connected_device now ident s)))"
  by (auto simp: connected_device_def Let_def split: option.splits prod.splits list.splits)

lemma run_calls_retag:
  "run_calls now calls (retag pre b s) =
     (fst (run_calls now calls s), retag pre b (snd (run_calls now calls s)))"
proof (induction now calls s rule: run_calls.induct)
  case (1 now s)
  show ?case by simp
next
  case (2 now event args cs s)
  then show ?case by simp
next
  case (3 now ident cs s)
  obtain e s' where c: "connected_device now ident s = (e, s')"
    by (cases "connected_device now ident s")
  show ?case
  proof (cases e)
    case None
    with "3.IH"[OF c[symmetric] None] c show ?thesis by (simp add: connected_device_retag)
  next
    case (Some x)
    with c show ?thesis by (simp add: connected_device_retag)
  qed
qed

lemma run_events_retag [simp]:
  "run_events calls (retag pre b s) = retag pre b (run_events calls s)"
  by (induction calls s rule: run_events.induct) simp_all

lemma notify_new_retag [simp]:
  "notify_new cs (retag pre b s) = retag pre b (notify_new cs s)"
  by (induction cs s rule: notify_new.induct) simp_all

lemma notify_new_nodes_retag [simp]:
  "notify_new_nodes ev ns (retag pre b s) = retag pre b (notify_new_nodes ev ns s)"
  by (induction ev ns s rule: notify_new_nodes.induct) simp_all

lemma update_known_retag:
  "update_known env now ch cs work (retag pre b s) =
     (case update_known env now ch cs work s of
        (e, known, work', s') \<Rightarrow> (e, known, work', retag pre b s'))"
proof (induction env now ch cs work s rule: update_known.induct)
  case (1 env now ch work s)
  show ?case by simp
next
  case (2 env now ch mac c rest work s)
  obtain c' calls where u: "client_update env (map_of work mac) (Some ch) c = (c', calls)"
    by (cases "client_update env (map_of work mac) (Some ch) c")
  obtain e1 s1 where r: "run_calls now calls s = (e1, s1)"
    by (cases "run_calls now calls s")
  show ?case
  proof (cases e1)
    case None
    from "2.IH"[OF u[symmetric] r[symmetric] None] u r None show ?thesis
      by (simp add: run_calls_retag split: prod.splits)
  next
    case (Some x)
    with u r show ?thesis by (simp add: run_calls_retag)
  qed
qed

lemma add_new_retag:
  "add_new env now work new (retag pre b s) =
     (case add_new env now work new s of (e, new', s') \<Rightarrow> (e, new', retag pre b s'))"
proof (induction env now work new s rule: add_new.induct)
  case (1 env now new s)
  show ?case by simp
next
  case (2 env now mac info work new s)
  obtain c calls where u: "client_update env (Some info) None (new_client env mac) = (c, calls)"
    by (cases "client_update env (Some info) None (new_client env mac)")
  obtain e1 s1 where r: "run_calls now calls s = (e1, s1)"
    by (cases "run_calls now calls s")
  show ?case
  proof (cases e1)
    case None
    from "2.IH"[OF u[symmetric] r[symmetric] None] u r None show ?thesis
      by (simp add: run_calls_retag)
  next
    case (Some x)
    with u r show ?thesis by (simp add: run_calls_retag)
  qed
qed

lemma unpolled_aimesh_retag [simp]:
  "unpolled_aimesh (retag pre b s) = retag pre b (unpolled_aimesh s)"
  by (simp add: unpolled_aimesh_def split: option.splits prod.splits bool.splits)

lemma unpolled_devices_retag [simp]:
  "unpolled_devices (retag pre b s) = retag pre b (unpolled_devices s)"
  by (simp add: unpolled_devices_def split: option.splits prod.splits bool.splits)

lemma update_unpolled_sensors_retag [simp]:
  "update_unpolled_sensors (retag pre b s) = retag pre b (update_unpolled_sensors s)"
  by (simp add: update_unpolled_sensors_def)

lemma reconcile_clients_retag:
  "reconcile_clients env now api (retag pre b s) =
     (fst (reconcile_clients env now api s), retag pre b (snd (reconcile_clients env now api s)))"
proof -
  obtain e1 known work s1 where k:
    "update_known env now (opt_consider_home (opts s)) (clients s)
       (formatted (format_mac env) api) s = (e1, known, work, s1)"
    by (cases "update_known env now (opt_consider_home (opts s)) (clients s)
       (formatted (format_mac env) api) s") auto
  have k': "update_known env now (opt_consider_home (opts s)) (clients s)
       (formatted (format_mac env) api) (retag pre b s) = (e1, known, work, retag pre b s1)"
    by (simp add: update_known_retag k)
  obtain e2 new s2 where a: "add_new env now work [] (s1\<lparr>clients := known\<rparr>) = (e2, new, s2)"
    by (cases "add_new env now work [] (s1\<lparr>clients := known\<rparr>)") auto
  have a': "add_new env now work [] ((retag pre b s1)\<lparr>clients := known\<rparr>)
              = (e2, new, retag pre b s2)"
    by (simp add: add_new_retag a)
  obtain number lst where c: "count_clients (clients (notify_new new s2)) (0, []) = (number, lst)"
    by (cases "count_clients (clients (notify_new new s2)) (0, [])")
  show ?thesis
  proof (cases e1)
    case (Some x)
    then show ?thesis using k k' by (simp add: reconcile_clients_def)
  next
    case None
    note n1 = None
    show ?thesis
    proof (cases e2)
      case (Some x)
      then show ?thesis using k k' a a' n1 by (simp add: reconcile_clients_def)
    next
      case None
      then show ?thesis using k k' a a' n1 c by (simp add: reconcile_clients_def Let_def)
    qed
  qed
qed

lemma update_known_nodes_retag:
  "update_known_nodes env ns work (retag pre b s) =
     (case update_known_nodes env ns work s of
        (known, work', s') \<Rightarrow> (known, work', retag pre b s'))"
  by (induction env ns work s rule: update_known_nodes.induct) (simp_all split: prod.splits)

lemma add_new_nodes_retag:
  "add_new_nodes env work new (retag pre b s) =
     (case add_new_nodes env work new s of (new', s') \<Rightarrow> (new', retag pre b s'))"
  by (induction env work new s rule: add_new_nodes.induct) (simp_all split: prod.splits)

lemma update_nodes_retag:
  "update_nodes env ev fetch (retag pre b s) = retag pre b (update_nodes env ev fetch s)"
  by (simp add: update_nodes_def update_known_nodes_retag add_new_nodes_retag Let_def
           split: prod.splits fetched.splits)

section \<open>The tracking option and the publication of the aggregates\<close>

lemma fetch_and_reconcile_retag:
  "fetch_and_reconcile env now fetch (retag pre b s) =
     (fst (fetch_and_reconcile env now fetch s),
      retag pre b (snd (fetch_and_reconcile env now fetch s)))"
  by (simp add: fetch_and_reconcile_def Let_def reconcile_clients_retag split: fetched.splits)

lemma update_devices_flag:
  "update_devices env now fetch (s\<lparr>opts := (opts s)\<lparr>opt_track_devices := b\<rparr>\<rparr>) =
     (fst (fetch_and_reconcile env now fetch (s\<lparr>trace := []\<rparr>)),
      retag (trace s @ [LogDebug (if b = False then ''Device tracking is disabled''
                                  else ''Device tracking is enabled'')]) b
        (snd (fetch_and_reconcile env now fetch (s\<lparr>trace := []\<rparr>))))"
proof -
  have "log (LogDebug (if b = False then ''Device tracking is disabled''
                       else ''Device tracking is enabled''))
          (s\<lparr>opts := (opts s)\<lparr>opt_track_devices := b\<rparr>\<rparr>)
        = retag (trace s @ [LogDebug (if b = False then ''Device tracking is disabled''
                                      else ''Device tracking is enabled'')]) b (s\<lparr>trace := []\<rparr>)"
    by (simp add: retag_def log_def)
  then show ?thesis by (simp add: update_devices_def fetch_and_reconcile_retag)
qed

text \<open>
  Claim C2, as stated, fails: with \<^verbatim>\<open>trackDevices\<close> false, a client pass over a router
  with no client and a snapshot with one client stores that client and counts it.
\<close>

theorem tracking_disabled_still_tracks_counterexample:
  "opt_track_devices (opts (sample_router False)) = False
   \<and> clients (sample_router False) = []
   \<and> clients (snd (update_devices sample_env 0 (Snapshot [(''aa'', sample_client)])
                     (sample_router False)))
       = [(''aa'', \<lparr>state = True,
                   identity = \<lparr>id_mac = Some ''aa'', id_connected = None, id_attrs = []\<rparr>\<rparr>)]
   \<and> clients_number (snd (update_devices sample_env 0 (Snapshot [(''aa'', sample_client)])
                     (sample_router False))) = 1"
  by code_simp

text \<open>
  Claim C2, amended. The option only chooses a debug line. For every state and every
  fetch result, a client pass with \<^verbatim>\<open>trackDevices\<close> false raises or returns just as the
  pass with the option true does, and leaves the state that pass leaves but for the
  option itself and the one debug line: the same client map, aggregates, history, error
  flag, sensor values, signals and events. A node pass does not read the option: it
  commutes with setting it.
\<close>

theorem tracking_option_only_selects_debug_line:
  "fst (update_devices env now fetch (s\<lparr>opts := (opts s)\<lparr>opt_track_devices := False\<rparr>\<rparr>))
     = fst (update_devices env now fetch (s\<lparr>opts := (opts s)\<lparr>opt_track_devices := True\<rparr>\<rparr>))
   \<and> snd (update_devices env now fetch (s\<lparr>opts := (opts s)\<lparr>opt_track_devices := False\<rparr>\<rparr>))
     = (let t = snd (update_devices env now fetch
                       (s\<lparr>opts := (opts s)\<lparr>opt_track_devices := True\<rparr>\<rparr>))
        in t\<lparr>opts := (opts t)\<lparr>opt_track_devices := False\<rparr>,
             trace := (trace t)[length (trace s) := LogDebug ''Device tracking is disabled'']\<rparr>)
   \<and> update_nodes env ev nfetch (s\<lparr>opts := (opts s)\<lparr>opt_track_devices := b\<rparr>\<rparr>)
     = (let t = update_nodes env ev nfetch s in t\<lparr>opts := (opts t)\<lparr>opt_track_devices := b\<rparr>\<rparr>)"
proof -
  have n: "update_nodes env ev nfetch (s\<lparr>opts := (opts s)\<lparr>opt_track_devices := b\<rparr>\<rparr>)
     = (let t = update_nodes env ev nfetch s in t\<lparr>opts := (opts t)\<lparr>opt_track_devices := b\<rparr>\<rparr>)"
    using update_nodes_retag[of env ev nfetch "[]" b s] by (simp add: retag_def Let_def)
  show ?thesis unfolding update_devices_flag using n by (simp add: retag_def Let_def)
qed

lemma update_unpolled_sensors_trace:
  "set (trace s) \<subseteq> set (trace (update_unpolled_sensors s))"
  by (auto simp: update_unpolled_sensors_def unpolled_devices_def unpolled_aimesh_def log_def
           split: option.splits prod.splits bool.splits)

lemma reconcile_clients_signals:
  assumes "reconcile_clients env now api s = (None, s')"
  shows "Dispatch SignalDeviceUpdate \<in> set (trace s')"
proof -
  obtain e1 known work s1 where k:
    "update_known env now (opt_consider_home (opts s)) (clients s)
       (formatted (format_mac env) api) s = (e1, known, work, s1)"
    by (cases "update_known env now (opt_consider_home (opts s)) (clients s)
       (formatted (format_mac env) api) s") auto
  obtain e2 new s2 where a: "add_new env now work [] (s1\<lparr>clients := known\<rparr>) = (e2, new, s2)"
    by (cases "add_new env now work [] (s1\<lparr>clients := known\<rparr>)") auto
  obtain number lst where c: "count_clients (clients (notify_new new s2)) (0, []) = (number, lst)"
    by (cases "count_clients (clients (notify_new new s2)) (0, [])")
  have n1: "e1 = None" using assms k by (cases e1) (simp_all add: reconcile_clients_def)
  have n2: "e2 = None" using assms k a n1 by (cases e2) (simp_all add: reconcile_clients_def)
  let ?s4 = "log (Dispatch SignalDeviceUpdate)
               ((notify_new new s2)\<lparr>clients_number := number, clients_list := lst\<rparr>)"
  have s': "s' = update_unpolled_sensors
                  ((if work \<noteq> [] then log (Dispatch SignalDeviceNew) else (\<lambda>x. x)) ?s4)"
    using assms k a n1 n2 c by (auto simp: reconcile_clients_def Let_def)
  have "Dispatch SignalDeviceUpdate
          \<in> set (trace ((if work \<noteq> [] then log (Dispatch SignalDeviceNew) else (\<lambda>x. x)) ?s4))"
    by (simp add: log_def)
  then show ?thesis unfolding s' using update_unpolled_sensors_trace by blast
qed

lemma update_devices_signals:
  assumes "fst (update_devices env now (Snapshot api) s) = None"
  shows "Dispatch SignalDeviceUpdate
           \<in> set (drop (length (trace s)) (trace (snd (update_devices env now (Snapshot api) s))))"
proof -
  let ?z = "s\<lparr>trace := []\<rparr>"
  let ?b = "opt_track_devices (opts s)"
  have u: "update_devices env now (Snapshot api) s =
     (fst (fetch_and_reconcile env now (Snapshot api) ?z),
      retag (trace s @ [LogDebug (if ?b = False then ''Device tracking is disabled''
                                  else ''Device tracking is enabled'')]) ?b
        (snd (fetch_and_reconcile env now (Snapshot api) ?z)))"
    using update_devices_flag[where env=env and now=now and fetch="Snapshot api" and s=s and b="?b"] by simp
  obtain e t where f: "fetch_and_reconcile env now (Snapshot api) ?z = (e, t)"
    by (cases "fetch_and_reconcile env now (Snapshot api) ?z")
  have e: "e = None" using assms u f by simp
  have "\<exists>api' s0. fetch_and_reconcile env now (Snapshot api) ?z = reconcile_clients env now api' s0"
    by (simp add: fetch_and_reconcile_def Let_def) blast
  then obtain api' s0 where "reconcile_clients env now api' s0 = (None, t)"
    using f e by auto
  then have "Dispatch SignalDeviceUpdate \<in> set (trace t)" by (rule reconcile_clients_signals)
  then show ?thesis using u f by simp
qed

text \<open>
  Claim C5, as stated, fails: a client pass that recomputes the very tuple the sensor
  handler holds still sends the device-update signal.
\<close>

theorem unchanged_tuple_still_signalled_counterexample:
  "sensor_handler (sample_router True) = Some new_sensor_handler
   \<and> (clients_number (snd (update_devices sample_env 0 (Snapshot []) (sample_router True))),
      clients_list (snd (update_devices sample_env 0 (Snapshot []) (sample_router True))),
      latest_connected (snd (update_devices sample_env 0 (Snapshot []) (sample_router True))),
      latest_connected_list (snd (update_devices sample_env 0 (Snapshot []) (sample_router True))))
     = (h_clients_number new_sensor_handler, h_clients_list new_sensor_handler,
        h_latest_connected new_sensor_handler, [])
   \<and> trace (snd (update_devices sample_env 0 (Snapshot []) (sample_router True)))
     = [LogDebug ''Device tracking is enabled'', LogDebug ''Updating AsusRouter device list'',
        Dispatch SignalDeviceUpdate]"
  by code_simp

section \<open>Further properties of the history and of the error flag\<close>

lemma failed_pass_errors:
  "error_lines (trace (update_nodes env ev (UpdateFailed ex) s))
     = error_lines (trace s) + (if connect_error s then 0 else 1)"
  "error_lines (trace (snd (update_devices env now (UpdateFailed ex) s)))
     = error_lines (trace s) + (if connect_error s then 0 else 1)"
  "connect_error (update_nodes env ev (UpdateFailed ex) s)"
  "connect_error (snd (update_devices env now (UpdateFailed ex) s))"
  by (simp_all add: update_devices_def fetch_and_reconcile_def update_nodes_def Let_def log_def
        error_lines_def)

text \<open>
  However many passes fail in a row, client passes and node passes in any order, the
  error is logged once if the error flag was clear before the first of them, and not at
  all if it was set.
\<close>

theorem error_logged_once_per_streak:
  "error_lines (trace (failing_streak env ev now ps s))
     = error_lines (trace s) + (if connect_error s \<or> ps = [] then 0 else 1)"
proof (induction ps arbitrary: s)
  case Nil
  show ?case by simp
next
  case (Cons p ps)
  show ?case
  proof (cases p)
    case True
    then show ?thesis
      using Cons[of "update_nodes env ev (UpdateFailed ''unreachable'') s"]
      by (simp add: failed_pass_errors)
  next
    case False
    then show ?thesis
      using Cons[of "snd (update_devices env now (UpdateFailed ''unreachable'') s)"]
      by (simp add: failed_pass_errors)
  qed
qed

text \<open>
  A client pass that has fetched a snapshot leaves the error flag clear; a node pass
  that has fetched a snapshot leaves the flag as it found it; a pass whose fetch fails
  leaves it set.
\<close>

theorem error_flag_after_pass:
  "connect_error (snd (update_devices env now (Snapshot api) s)) = False
   \<and> connect_error (update_nodes env ev (Snapshot napi) s) = connect_error s
   \<and> connect_error (snd (update_devices env now (UpdateFailed ex) s)) = True
   \<and> connect_error (update_nodes env ev (UpdateFailed ex) s) = True"
proof -
  obtain api' s0 where u: "update_devices env now (Snapshot api) s = reconcile_clients env now api' s0"
    and c: "connect_error s0 = False"
    using update_devices_snapshot by blast
  obtain e s' where r: "reconcile_clients env now api' s0 = (e, s')"
    by (cases "reconcile_clients env now api' s0")
  have "connect_error (snd (update_devices env now (Snapshot api) s)) = False"
    using reconcile_clients_result[OF r] u r c by simp
  then show ?thesis by (simp add: update_nodes_result failed_pass_errors)
qed

text \<open>
  After a call with a MAC, the entries before the last one are in ascending order of
  connection time, entries without a time counting as connected at the time of the call.
\<close>

theorem history_sorted_but_last:
  assumes "id_mac ident = Some mac" "mac \<noteq> []"
  shows "sorted (map (connected_device_time now)
           (butlast (latest_connected_list (snd (connected_device now ident s)))))"
proof (cases "0 \<le> opt_latest_connected (opts s)")
  case True
  let ?r = "sort_key (connected_device_time now) (remove_known 0 mac (latest_connected_list s))"
  let ?k = "length (appended now ident mac s) - nat (opt_latest_connected (opts s))"
  have "butlast (drop ?k (appended now ident mac s)) = drop ?k (butlast (appended now ident mac s))"
    by (rule butlast_drop)
  also have "\<dots> = drop ?k ?r" by (simp add: appended_def)
  finally have b: "butlast (latest_connected_list (snd (connected_device now ident s))) = drop ?k ?r"
    by (simp add: connected_device_list[OF assms True])
  have "sorted (drop ?k (map (connected_device_time now) ?r))"
    by (rule sorted_wrt_drop) simp
  then show ?thesis unfolding b by (simp add: drop_map)
next
  case False
  then show ?thesis using assms by (simp add: connected_device_neg)
qed

theorem history_sorted_but_last_witness:
  "id_mac (dev ''cc'' 5) = Some ''cc'' \<and> ''cc'' \<noteq> []
   \<and> latest_connected_list
       (record_connections [(20, dev ''aa'' 20), (10, dev ''bb'' 10), (5, dev ''cc'' 5)]
          (new_ardevice (limit_options 5) ROUTER))
     = [dev ''bb'' 10, dev ''aa'' 20, dev ''cc'' 5]
   \<and> sorted (map (connected_device_time 5)
       (butlast (latest_connected_list (snd (connected_device 5 (dev ''cc'' 5)
          (record_connections [(20, dev ''aa'' 20), (10, dev ''bb'' 10)]
             (new_ardevice (limit_options 5) ROUTER)))))))"
proof -
  have m: "id_mac (dev ''cc'' 5) = Some ''cc''" by (simp add: dev_def)
  have n: "''cc'' \<noteq> []" by simp
  have v: "latest_connected_list
       (record_connections [(20, dev ''aa'' 20), (10, dev ''bb'' 10), (5, dev ''cc'' 5)]
          (new_ardevice (limit_options 5) ROUTER))
     = [dev ''bb'' 10, dev ''aa'' 20, dev ''cc'' 5]"
    by code_simp
  note s = history_sorted_but_last [OF m n, of 5
         "record_connections [(20, dev ''aa'' 20), (10, dev ''bb'' 10)]
             (new_ardevice (limit_options 5) ROUTER)"]
  show ?thesis by (intro conjI m n v s)
qed

section \<open>What a pass publishes to the sensor handler\<close>

lemma refreshes_simps [simp]:
  "refreshes [] = []"
  "refreshes (a @ b) = refreshes a @ refreshes b"
  "refreshes (Refresh k # tr) = k # refreshes tr"
  "refreshes (LogDebug m # tr) = refreshes tr"
  "refreshes (LogError m # tr) = refreshes tr"
  "refreshes (LogInfo m # tr) = refreshes tr"
  "refreshes (Dispatch sg # tr) = refreshes tr"
  "refreshes (BusFire ev args # tr) = refreshes tr"
  by (simp_all add: refreshes_def)

lemma refreshes_fire_event [simp]:
  "refreshes (trace (fire_event event args s)) = refreshes (trace s)"
  by (simp add: fire_event_def)

lemma trace_connected_device [simp]:
  "trace (snd (connected_device now ident s)) = trace s"
  by (auto simp: connected_device_def Let_def split: option.splits prod.splits list.splits)

lemma refreshes_run_calls [simp]:
  "refreshes (trace (snd (run_calls now calls s))) = refreshes (trace s)"
proof (induction now calls s rule: run_calls.induct)
  case (1 now s)
  show ?case by simp
next
  case (2 now event args cs s)
  then show ?case by simp
next
  case (3 now ident cs s)
  obtain e s' where c: "connected_device now ident s = (e, s')"
    by (cases "connected_device now ident s")
  have t: "trace s' = trace s" using trace_connected_device[of now ident s] c by simp
  show ?case
  proof (cases e)
    case None
    with "3.IH"[OF c[symmetric] None] c t show ?thesis by simp
  next
    case (Some x)
    with c t show ?thesis by simp
  qed
qed

lemma refreshes_notify_new [simp]:
  "refreshes (trace (notify_new cs s)) = refreshes (trace s)"
  by (induction cs s rule: notify_new.induct) simp_all

lemma refreshes_run_events [simp]:
  "refreshes (trace (run_events calls s)) = refreshes (trace s)"
  by (induction calls s rule: run_events.induct) simp_all

lemma refreshes_notify_new_nodes [simp]:
  "refreshes (trace (notify_new_nodes ev ns s)) = refreshes (trace s)"
  by (induction ev ns s rule: notify_new_nodes.induct) simp_all

lemma refreshes_update_known:
  "update_known env now ch cs work s = (e, known, work', s')
   \<Longrightarrow> refreshes (trace s') = refreshes (trace s)"
proof (induction env now ch cs work s arbitrary: e known work' s' rule: update_known.induct)
  case (1 env now ch work s)
  then show ?case by simp
next
  case (2 env now ch mac c rest work s)
  obtain c' calls where u: "client_update env (map_of work mac) (Some ch) c = (c', calls)"
    by (cases "client_update env (map_of work mac) (Some ch) c")
  obtain e1 s1 where r: "run_calls now calls s = (e1, s1)"
    by (cases "run_calls now calls s")
  have f1: "refreshes (trace s1) = refreshes (trace s)"
    using refreshes_run_calls[of now calls s] r by simp
  show ?case
  proof (cases e1)
    case (Some x)
    with "2.prems" u r f1 show ?thesis by auto
  next
    case None
    obtain e2 k2 w2 s2 where k:
      "update_known env now ch rest (AList.delete mac work) s1 = (e2, k2, w2, s2)"
      by (cases "update_known env now ch rest (AList.delete mac work) s1") auto
    from "2.IH"[OF u[symmetric] r[symmetric] None k]
    have "refreshes (trace s2) = refreshes (trace s1)" .
    with "2.prems" u r None k f1 show ?thesis by auto
  qed
qed

lemma refreshes_add_new:
  "add_new env now work new s = (e, new', s')
   \<Longrightarrow> refreshes (trace s') = refreshes (trace s)"
proof (induction env now work new s arbitrary: e new' s' rule: add_new.induct)
  case (1 env now new s)
  then show ?case by simp
next
  case (2 env now mac info work new s)
  obtain c calls where u: "client_update env (Some info) None (new_client env mac) = (c, calls)"
    by (cases "client_update env (Some info) None (new_client env mac)")
  obtain e1 s1 where r: "run_calls now calls s = (e1, s1)"
    by (cases "run_calls now calls s")
  have f1: "refreshes (trace s1) = refreshes (trace s)"
    using refreshes_run_calls[of now calls s] r by simp
  show ?case
  proof (cases e1)
    case (Some x)
    with "2.prems" u r f1 show ?thesis by auto
  next
    case None
    let ?s2 = "s1\<lparr>clients := AList.update mac c (clients s1)\<rparr>"
    have a: "add_new env now work (new @ [c]) ?s2 = (e, new', s')"
      using "2.prems" u r None by simp
    from "2.IH"[OF u[symmetric] r[symmetric] None a] f1 show ?thesis by simp
  qed
qed

lemma refreshes_update_known_nodes:
  "update_known_nodes env ns work s = (known, work', s')
   \<Longrightarrow> refreshes (trace s') = refreshes (trace s)"
proof (induction env ns work s arbitrary: known work' s' rule: update_known_nodes.induct)
  case (1 env work s)
  then show ?case by simp
next
  case (2 env mac n rest work s)
  obtain n' calls where u: "node_update env (map_of work mac) n = (n', calls)"
    by (cases "node_update env (map_of work mac) n")
  obtain k2 w2 s2 where k:
    "update_known_nodes env rest (AList.delete mac work) (run_events calls s) = (k2, w2, s2)"
    by (cases "update_known_nodes env rest (AList.delete mac work) (run_events calls s)") auto
  from "2.IH"[OF u[symmetric] k] have "refreshes (trace s2) = refreshes (trace s)" by simp
  then show ?case using "2.prems" u k by auto
qed

lemma refreshes_add_new_nodes:
  "add_new_nodes env work new s = (new', s')
   \<Longrightarrow> refreshes (trace s') = refreshes (trace s)"
proof (induction env work new s arbitrary: new' s' rule: add_new_nodes.induct)
  case (1 env new s)
  then show ?case by simp
next
  case (2 env mac info work new s)
  obtain n calls where u: "node_update env (Some info) (new_node env mac) = (n, calls)"
    by (cases "node_update env (Some info) (new_node env mac)")
  let ?s1 = "run_events calls s"
  let ?s2 = "?s1\<lparr>aimesh := AList.update mac n (aimesh ?s1)\<rparr>"
  have a: "add_new_nodes env work (new @ [n]) ?s2 = (new', s')"
    using "2.prems" u by simp
  from "2.IH"[OF u[symmetric] a] show ?case by simp
qed

lemma published_cong:
  assumes "sensor_coordinator t = sensor_coordinator s" "aimesh_number t = aimesh_number s"
    "aimesh_list t = aimesh_list s" "clients_number t = clients_number s"
    "clients_list t = clients_list s" "latest_connected t = latest_connected s"
    "latest_connected_list t = latest_connected_list s"
  shows "nodes_published t h = nodes_published s h"
    and "clients_published t h = clients_published s h"
    and "published_handler t h = published_handler s h"
  unfolding nodes_published_def clients_published_def published_handler_def assms
  by (rule refl)+

lemma unpolled_aimesh_publishes:
  assumes "sensor_handler s = Some h"
  shows "unpolled_aimesh s =
     (if nodes_published s h
      then log (Refresh AIMESH)
             (s\<lparr>sensor_handler :=
                  Some (h\<lparr>h_aimesh_number := aimesh_number s, h_aimesh_list := aimesh_list s\<rparr>)\<rparr>)
      else s)"
proof (cases "AIMESH \<in> set (sensor_coordinator s)")
  case False
  then show ?thesis using assms by (simp add: unpolled_aimesh_def nodes_published_def)
next
  case True
  show ?thesis
  proof (cases "h_aimesh_number h = aimesh_number s \<and> h_aimesh_list h = aimesh_list s")
    case eq: True
    then have "update_aimesh (aimesh_number s) (aimesh_list s) h = (False, h)"
      by (simp add: update_aimesh_def)
    then show ?thesis using assms True eq
      by (simp add: unpolled_aimesh_def nodes_published_def)
  next
    case ne: False
    then have "update_aimesh (aimesh_number s) (aimesh_list s) h =
                 (True, h\<lparr>h_aimesh_number := aimesh_number s, h_aimesh_list := aimesh_list s\<rparr>)"
      by (simp add: update_aimesh_def)
    then show ?thesis using assms True ne
      by (simp add: unpolled_aimesh_def nodes_published_def)
  qed
qed

lemma unpolled_devices_publishes:
  assumes "sensor_handler s = Some h"
  shows "unpolled_devices s =
     (if clients_published s h
      then log (Refresh DEVICES)
             (s\<lparr>sensor_handler :=
                  Some (h\<lparr>h_clients_number := clients_number s, h_clients_list := clients_list s,
                         h_latest_connected := latest_connected s,
                         h_latest_connected_list := RouterList\<rparr>)\<rparr>)
      else s)"
proof (cases "DEVICES \<in> set (sensor_coordinator s)")
  case False
  then show ?thesis using assms by (simp add: unpolled_devices_def clients_published_def)
next
  case True
  let ?eq = "h_clients_number h = clients_number s \<and> h_clients_list h = clients_list s
          \<and> h_latest_connected h = latest_connected s
          \<and> deref (latest_connected_list s) (h_latest_connected_list h)
               = latest_connected_list s"
  have d: "deref (latest_connected_list s) RouterList = latest_connected_list s"
    by (simp add: deref_def)
  show ?thesis
  proof (cases ?eq)
    case eq: True
    then have "update_clients (latest_connected_list s) (clients_number s) (clients_list s)
                 (latest_connected s) RouterList h = (False, h)"
      by (simp add: update_clients_def d)
    then show ?thesis using assms True eq
      by (simp add: unpolled_devices_def clients_published_def)
  next
    case ne: False
    then have "update_clients (latest_connected_list s) (clients_number s) (clients_list s)
                 (latest_connected s) RouterList h =
                 (True, h\<lparr>h_clients_number := clients_number s, h_clients_list := clients_list s,
                         h_latest_connected := latest_connected s,
                         h_latest_connected_list := RouterList\<rparr>)"
      unfolding update_clients_def d by (simp only: if_False)
    then show ?thesis using assms True ne
      by (simp add: unpolled_devices_def clients_published_def)
  qed
qed

text \<open>\<^verbatim>\<open>_update_unpolled_sensors\<close> in one step.\<close>

lemma update_unpolled_sensors_publishes:
  "update_unpolled_sensors s =
     (case sensor_handler s of
        None \<Rightarrow> s
      | Some h \<Rightarrow>
          s\<lparr>sensor_handler := Some (published_handler s h),
            trace := trace s @ (if nodes_published s h then [Refresh AIMESH] else [])
                       @ (if clients_published s h then [Refresh DEVICES] else [])\<rparr>)"
proof (cases "sensor_handler s")
  case None
  then show ?thesis
    by (simp add: update_unpolled_sensors_def unpolled_devices_def unpolled_aimesh_def)
next
  case (Some h)
  let ?h1 = "h\<lparr>h_aimesh_number := aimesh_number s, h_aimesh_list := aimesh_list s\<rparr>"
  let ?s1 = "log (Refresh AIMESH) (s\<lparr>sensor_handler := Some ?h1\<rparr>)"
  have c1: "clients_published ?s1 ?h1 = clients_published s h"
    by (simp add: clients_published_def log_def)
  have h1: "sensor_handler ?s1 = Some ?h1" by (simp add: log_def)
  show ?thesis
  proof (cases "nodes_published s h")
    case np: True
    show ?thesis
    proof (cases "clients_published s h")
      case True
      then show ?thesis using Some np
        by (simp add: update_unpolled_sensors_def unpolled_aimesh_publishes[OF Some]
              unpolled_devices_publishes[OF h1] c1 published_handler_def)
           (simp add: log_def)
    next
      case False
      then show ?thesis using Some np
        by (simp add: update_unpolled_sensors_def unpolled_aimesh_publishes[OF Some]
              unpolled_devices_publishes[OF h1] c1 published_handler_def)
           (simp add: log_def)
    qed
  next
    case np: False
    show ?thesis
    proof (cases "clients_published s h")
      case True
      then show ?thesis using Some np
        by (simp add: update_unpolled_sensors_def unpolled_aimesh_publishes[OF Some]
              unpolled_devices_publishes[OF Some] published_handler_def)
           (simp add: log_def)
    next
      case False
      then show ?thesis using Some np
        by (simp add: update_unpolled_sensors_def unpolled_aimesh_publishes[OF Some]
              unpolled_devices_publishes[OF Some] published_handler_def)
    qed
  qed
qed

lemma reconcile_clients_publishes:
  assumes "reconcile_clients env now api s = (None, s')"
  shows "sensor_handler s' = map_option (published_handler s') (sensor_handler s)
     \<and> refreshes (trace s') =
         refreshes (trace s)
           @ (case sensor_handler s of
                None \<Rightarrow> []
              | Some h \<Rightarrow> (if nodes_published s' h then [AIMESH] else [])
                           @ (if clients_published s' h then [DEVICES] else []))"
proof -
  obtain e1 known work s1 where k:
    "update_known env now (opt_consider_home (opts s)) (clients s)
       (formatted (format_mac env) api) s = (e1, known, work, s1)"
    by (cases "update_known env now (opt_consider_home (opts s)) (clients s)
       (formatted (format_mac env) api) s") auto
  obtain e2 new s2 where a: "add_new env now work [] (s1\<lparr>clients := known\<rparr>) = (e2, new, s2)"
    by (cases "add_new env now work [] (s1\<lparr>clients := known\<rparr>)") auto
  obtain number lst where c: "count_clients (clients (notify_new new s2)) (0, []) = (number, lst)"
    by (cases "count_clients (clients (notify_new new s2)) (0, [])")
  have n1: "e1 = None" using assms k by (cases e1) (simp_all add: reconcile_clients_def)
  have n2: "e2 = None" using assms k a n1 by (cases e2) (simp_all add: reconcile_clients_def)
  let ?s3 = "notify_new new s2"
  let ?s5 = "(if work \<noteq> [] then log (Dispatch SignalDeviceNew) else (\<lambda>x. x))
               (log (Dispatch SignalDeviceUpdate)
                  (?s3\<lparr>clients_number := number, clients_list := lst\<rparr>))"
  have s': "s' = update_unpolled_sensors ?s5"
    using assms k a n1 n2 c by (auto simp: reconcile_clients_def Let_def)
  have f1: "frame s s1" using update_known_keys[OF k] by simp
  have f2: "frame (s1\<lparr>clients := clients s2\<rparr>) s2" using add_new_clients[OF a] by simp
  have f3: "frame s2 ?s3" by simp
  have h5: "sensor_handler ?s5 = sensor_handler s"
    using f1 f2 f3 by (simp add: frame_def log_def)
  have r1: "refreshes (trace s1) = refreshes (trace s)" by (rule refreshes_update_known[OF k])
  have r2: "refreshes (trace s2) = refreshes (trace s1)"
    using refreshes_add_new[OF a] by simp
  have r5: "refreshes (trace ?s5) = refreshes (trace s)"
    using r1 r2 by (simp add: log_def)
  have cg: "sensor_coordinator s' = sensor_coordinator ?s5" "aimesh_number s' = aimesh_number ?s5"
    "aimesh_list s' = aimesh_list ?s5" "clients_number s' = clients_number ?s5"
    "clients_list s' = clients_list ?s5" "latest_connected s' = latest_connected ?s5"
    "latest_connected_list s' = latest_connected_list ?s5"
    unfolding s' by simp_all
  note pc = published_cong[OF cg]
  show ?thesis
  proof (cases "sensor_handler s")
    case None
    then have "sensor_handler ?s5 = None" using h5 by simp
    then have "update_unpolled_sensors ?s5 = ?s5"
      by (simp add: update_unpolled_sensors_publishes)
    then show ?thesis using None h5 r5 s' by simp
  next
    case (Some h)
    then have hs: "sensor_handler ?s5 = Some h" using h5 by simp
    have u: "update_unpolled_sensors ?s5 =
       ?s5\<lparr>sensor_handler := Some (published_handler ?s5 h),
            trace := trace ?s5 @ (if nodes_published ?s5 h then [Refresh AIMESH] else [])
                       @ (if clients_published ?s5 h then [Refresh DEVICES] else [])\<rparr>"
      by (subst update_unpolled_sensors_publishes) (simp only: hs option.case)
    have a1: "sensor_handler s' = Some (published_handler ?s5 h)"
      unfolding s' u by simp
    have a2: "refreshes (trace s') = refreshes (trace s)
                @ (if nodes_published ?s5 h then [AIMESH] else [])
                @ (if clients_published ?s5 h then [DEVICES] else [])"
      unfolding s' u using r5 by simp
    show ?thesis using a1 a2 Some by (simp add: pc)
  qed
qed

lemma update_devices_snapshot_handler:
  "\<exists>api' s0. update_devices env now (Snapshot api) s = reconcile_clients env now api' s0
     \<and> sensor_handler s0 = sensor_handler s \<and> refreshes (trace s0) = refreshes (trace s)"
proof -
  let ?s2 = "log (LogDebug ''Updating AsusRouter device list'')
               (log (LogDebug (if opt_track_devices (opts s) = False
                               then ''Device tracking is disabled''
                               else ''Device tracking is enabled'')) s)"
  let ?api = "if dev_mode ?s2 = MEDIA_BRIDGE
              then filter (\<lambda>(mac, c). ac_connection c \<noteq> None \<and> ac_connection c = Some WIRED) api
              else api"
  let ?s3 = "if connect_error ?s2
             then log (LogInfo ''Reconnected'') (?s2\<lparr>connect_error := False\<rparr>) else ?s2"
  have "update_devices env now (Snapshot api) s = reconcile_clients env now ?api ?s3"
    by (simp add: update_devices_def fetch_and_reconcile_def Let_def)
  moreover have "sensor_handler ?s3 = sensor_handler s
     \<and> refreshes (trace ?s3) = refreshes (trace s)"
    by (simp add: log_def)
  ultimately show ?thesis by blast
qed

lemma update_nodes_handler:
  "sensor_handler (update_nodes env ev fetch s) = sensor_handler s
   \<and> refreshes (trace (update_nodes env ev fetch s)) = refreshes (trace s)"
proof (cases fetch)
  case (UpdateFailed ex)
  then show ?thesis by (simp add: update_nodes_def Let_def log_def)
next
  case (Snapshot api)
  let ?s1 = "log (LogDebug ''Updating AiMesh status'') s"
  obtain known work s2 where k:
    "update_known_nodes env (aimesh ?s1) (formatted (format_mac env) api) ?s1 = (known, work, s2)"
    by (cases "update_known_nodes env (aimesh ?s1) (formatted (format_mac env) api) ?s1") auto
  obtain new s3 where a: "add_new_nodes env work [] (s2\<lparr>aimesh := known\<rparr>) = (new, s3)"
    by (cases "add_new_nodes env work [] (s2\<lparr>aimesh := known\<rparr>)")
  let ?s4 = "notify_new_nodes ev new s3"
  obtain number lst where c: "count_nodes (aimesh ?s4) (0, []) = (number, lst)"
    by (cases "count_nodes (aimesh ?s4) (0, [])")
  have r: "update_nodes env ev (Snapshot api) s =
             (if work \<noteq> [] then log (Dispatch SignalAimeshNew) else (\<lambda>x. x))
               (log (Dispatch SignalAimeshUpdate)
                  (?s4\<lparr>aimesh_number := number, aimesh_list := lst\<rparr>))"
    using k a c by (auto simp: update_nodes_def Let_def)
  have f2: "frame ?s1 s2" using update_known_nodes_keys[OF k] by simp
  have f3: "frame (s2\<lparr>aimesh := aimesh s3\<rparr>) s3" using add_new_nodes_frame[OF a] by simp
  have f4: "frame s3 ?s4" by simp
  have h: "sensor_handler ?s4 = sensor_handler s"
    using f2 f3 f4 by (simp add: frame_def log_def)
  have r2: "refreshes (trace s2) = refreshes (trace s)"
    using refreshes_update_known_nodes[OF k] by (simp add: log_def)
  have r3: "refreshes (trace s3) = refreshes (trace s2)"
    using refreshes_add_new_nodes[OF a] by simp
  show ?thesis unfolding Snapshot r using h r2 r3 by (simp add: log_def)
qed

text \<open>
  Claim C5, amended. A client pass that has fetched a snapshot and returns sends the
  device-update signal of the dispatcher, whether or not a tuple has changed. The tuple
  the sensor handler holds after the pass is the one it held before, with the node
  tuple replaced by the recomputed one if the coordinator of the nodes is registered and
  the two are not \<^verbatim>\<open>==\<close>, and the client tuple replaced by the recomputed one if the
  coordinator of the devices is registered and the two are not \<^verbatim>\<open>==\<close>; the pass asks
  just the coordinators of the replaced tuples to refresh. For a tuple that is equal
  nothing is stored and no refresh is asked for, and without a handler nothing is
  stored or refreshed at all. A node pass leaves the handler as it is and asks for no
  refresh: the node tuple is compared in the client pass.
\<close>

theorem client_pass_publishes_changed_tuples:
  assumes "fst (update_devices env now (Snapshot api) s) = None"
  shows "Dispatch SignalDeviceUpdate
           \<in> set (drop (length (trace s)) (trace (snd (update_devices env now (Snapshot api) s))))
     \<and> sensor_handler (snd (update_devices env now (Snapshot api) s)) =
         map_option (published_handler (snd (update_devices env now (Snapshot api) s)))
           (sensor_handler s)
     \<and> refreshes (trace (snd (update_devices env now (Snapshot api) s))) =
         refreshes (trace s)
           @ (case sensor_handler s of
                None \<Rightarrow> []
              | Some h \<Rightarrow>
                  (if nodes_published (snd (update_devices env now (Snapshot api) s)) h
                   then [AIMESH] else [])
                  @ (if clients_published (snd (update_devices env now (Snapshot api) s)) h
                     then [DEVICES] else []))
     \<and> sensor_handler (update_nodes env ev nfetch s) = sensor_handler s
     \<and> refreshes (trace (update_nodes env ev nfetch s)) = refreshes (trace s)"
proof -
  obtain api' s0 where u: "update_devices env now (Snapshot api) s = reconcile_clients env now api' s0"
    and h0: "sensor_handler s0 = sensor_handler s"
    and r0: "refreshes (trace s0) = refreshes (trace s)"
    using update_devices_snapshot_handler by blast
  obtain e s' where r: "reconcile_clients env now api' s0 = (e, s')"
    by (cases "reconcile_clients env now api' s0")
  have e: "e = None" using assms u r by simp
  note p = reconcile_clients_publishes[OF r[unfolded e]]
  have s': "snd (update_devices env now (Snapshot api) s) = s'" using u r by simp
  have 1: "Dispatch SignalDeviceUpdate
           \<in> set (drop (length (trace s)) (trace (snd (update_devices env now (Snapshot api) s))))"
    using assms by (rule update_devices_signals)
  show ?thesis
    unfolding s' using 1[unfolded s'] p update_nodes_handler[of env ev nfetch s]
    by (simp add: h0 r0)
qed

theorem client_pass_publishes_changed_tuples_witness:
  "fst (update_devices sample_env 0 (Snapshot [(''aa'', sample_client)]) (sample_router True))
     = None
   \<and> sensor_handler
       (snd (update_devices sample_env 0 (Snapshot [(''aa'', sample_client)]) (sample_router True)))
     = map_option
         (published_handler
            (snd (update_devices sample_env 0 (Snapshot [(''aa'', sample_client)])
                    (sample_router True))))
         (sensor_handler (sample_router True))
   \<and> sensor_handler
       (snd (update_devices sample_env 0 (Snapshot [(''aa'', sample_client)]) (sample_router True)))
     = Some \<lparr>h_clients_number = 1,
             h_clients_list = [\<lparr>id_mac = Some ''aa'', id_connected = None, id_attrs = []\<rparr>],
             h_latest_connected = PyNone, h_latest_connected_list = RouterList,
             h_aimesh_number = 0, h_aimesh_list = []\<rparr>
   \<and> refreshes (trace
       (snd (update_devices sample_env 0 (Snapshot [(''aa'', sample_client)])
               (sample_router True))))
     = [DEVICES]"
proof -
  let ?u = "update_devices sample_env 0 (Snapshot [(''aa'', sample_client)]) (sample_router True)"
  have h: "fst ?u = None" by code_simp
  note t = client_pass_publishes_changed_tuples [OF h, of "''ev''" "Snapshot []"]
  have 1: "sensor_handler (snd ?u) =
             map_option (published_handler (snd ?u)) (sensor_handler (sample_router True))"
    by (rule conjunct1 [OF conjunct2 [OF t]])
  have 2: "sensor_handler (snd ?u)
     = Some \<lparr>h_clients_number = 1,
             h_clients_list = [\<lparr>id_mac = Some ''aa'', id_connected = None, id_attrs = []\<rparr>],
             h_latest_connected = PyNone, h_latest_connected_list = RouterList,
             h_aimesh_number = 0, h_aimesh_list = []\<rparr>"
    by code_simp
  have 3: "refreshes (trace (snd ?u)) = [DEVICES]" by code_simp
  show ?thesis by (intro conjI h 1 2 3)
qed

text \<open>
  Claim C6. The entry that the eviction removes is the one at index 0 of a list that was
  sorted before the new identity was appended. With the bound 2 and the history
  \<open>[aa@10, bb@20]\<close>, recording a device connected at time 5 evicts \<open>aa@10\<close> and keeps the
  new entry, which is the oldest of the three.
\<close>

theorem eviction_keeps_older_entry:
  "latest_connected_list
     (record_connections [(10, dev ''aa'' 10), (20, dev ''bb'' 20)]
        (new_ardevice (limit_options 2) ROUTER)) = [dev ''aa'' 10, dev ''bb'' 20]
   \<and> latest_connected_list
       (record_connections [(10, dev ''aa'' 10), (20, dev ''bb'' 20), (21, dev ''cc'' 5)]
          (new_ardevice (limit_options 2) ROUTER)) = [dev ''bb'' 20, dev ''cc'' 5]"
  by code_simp

end
